theory Spec2Isabelle
  imports Main "HOL-Library.Word"
begin

unbundle bit_operations_syntax

section \<open>Build configuration of pulse.h\<close>

text \<open>
  The kernel is configured by four preprocessor macros.  They are fixed per build, so the
  model takes them as one record that every operation receives.  The header refuses to
  compile unless \<open>1 \<le> PULSE_MAX_TASKS \<le> 64\<close> (the two \<open>#error\<close> guards); \<open>cfg_ok\<close>
  is that guard.  The three flags are 0 or 1 in the header and booleans here.
\<close>

record pulse_cfg =
  PULSE_MAX_TASKS :: nat
  PULSE_CFG_NULL_TICK_GUARD :: bool
  PULSE_CFG_RUN_IMMEDIATELY :: bool
  PULSE_CFG_SATURATE_ELAPSED :: bool

definition cfg_ok :: "pulse_cfg \<Rightarrow> bool" where
  "cfg_ok cfg \<longleftrightarrow> 1 \<le> PULSE_MAX_TASKS cfg \<and> PULSE_MAX_TASKS cfg \<le> 64"

text \<open>The defaults of the header, and the build of the hosted tests (capacity 8).\<close>

definition default_cfg :: pulse_cfg where
  "default_cfg = \<lparr>PULSE_MAX_TASKS = 16, PULSE_CFG_NULL_TICK_GUARD = True,
     PULSE_CFG_RUN_IMMEDIATELY = True, PULSE_CFG_SATURATE_ELAPSED = True\<rparr>"

definition test_cfg :: pulse_cfg where
  "test_cfg = default_cfg\<lparr>PULSE_MAX_TASKS := 8\<rparr>"

section \<open>Types\<close>

text \<open>
  \<open>pulse_state_t\<close> is \<open>int32_t\<close>: a 32-bit word, read as signed by \<open>sint\<close>.  A task
  function \<open>pulse_tick_f\<close> is C code: besides mapping the state it may read and write the
  program's memory outside the kernel (the tests' tasks append to a log).  That memory is
  the type parameter \<open>'w\<close>; a function pointer is \<open>None\<close> when it is null.  A task
  function does not touch \<open>pulse_kernel\<close> itself, which is a \<open>static\<close> of the header.
\<close>

type_synonym pulse_state_t = "32 word"

type_synonym 'w pulse_tick_f = "pulse_state_t \<Rightarrow> 'w \<Rightarrow> pulse_state_t \<times> 'w"

record 'w pulse_task_t =
  running :: "8 word"
  state :: pulse_state_t
  period_ticks :: "32 word"
  elapsed_ticks :: "32 word"
  tick :: "'w pulse_tick_f option"

text \<open>
  \<open>tasks\<close> is the array \<open>tasks[PULSE_MAX_TASKS]\<close>; \<open>task_count\<close> is a \<open>uint8_t\<close>, kept
  as a natural number with the cast of the one increment written out.
\<close>

record 'w pulse_kernel_t =
  tasks :: "'w pulse_task_t list"
  task_count :: nat
  ready_mask :: "64 word"
  started :: "8 word"
  tick_ms :: "32 word"

text \<open>The array has exactly \<open>PULSE_MAX_TASKS\<close> elements.\<close>

definition array_ok :: "pulse_cfg \<Rightarrow> 'w pulse_kernel_t \<Rightarrow> bool" where
  "array_ok cfg k \<longleftrightarrow> length (tasks k) = PULSE_MAX_TASKS cfg"

section \<open>Ready mask helpers\<close>

definition pulse_task_bit :: "nat \<Rightarrow> 64 word" where
  "pulse_task_bit i = push_bit i 1"

text \<open>The scan \<open>for (i = 0; i < PULSE_MAX_TASKS; i++)\<close>; the result is \<open>-1\<close> or an index.\<close>

function lsb_loop :: "pulse_cfg \<Rightarrow> 64 word \<Rightarrow> nat \<Rightarrow> int" where
  "lsb_loop cfg msk i =
     (if i < PULSE_MAX_TASKS cfg
      then (if msk AND pulse_task_bit i \<noteq> 0 then int i else lsb_loop cfg msk (i + 1))
      else - 1)"
  by pat_completeness auto
termination
  by (relation "measure (\<lambda>(cfg, msk, i). PULSE_MAX_TASKS cfg - i)") auto

declare lsb_loop.simps [simp del]

definition pulse_find_lowest_set_bit :: "pulse_cfg \<Rightarrow> 64 word \<Rightarrow> int" where
  "pulse_find_lowest_set_bit cfg msk = lsb_loop cfg msk 0"

section \<open>Initialisation and registration\<close>

function init_loop :: "pulse_cfg \<Rightarrow> nat \<Rightarrow> 'w pulse_task_t list \<Rightarrow> 'w pulse_task_t list" where
  "init_loop cfg i ts =
     (if i < PULSE_MAX_TASKS cfg
      then init_loop cfg (i + 1)
             (ts[i := (ts ! i)\<lparr>running := 0, state := 0, period_ticks := 0,
                               elapsed_ticks := 0, tick := None\<rparr>])
      else ts)"
  by pat_completeness auto
termination
  by (relation "measure (\<lambda>(cfg, i, ts). PULSE_MAX_TASKS cfg - i)") auto

declare init_loop.simps [simp del]

definition pulse_init :: "pulse_cfg \<Rightarrow> 32 word \<Rightarrow> 'w pulse_kernel_t \<Rightarrow> 'w pulse_kernel_t" where
  "pulse_init cfg tick_ms0 k =
     (let tick_ms1 = (if tick_ms0 = 0 then 1 else tick_ms0);
          k1 = k\<lparr>task_count := 0, started := 0, tick_ms := tick_ms1, ready_mask := 0\<rparr>
      in k1\<lparr>tasks := init_loop cfg 0 (tasks k1)\<rparr>)"

text \<open>
  \<open>pulse_add_task\<close> returns the new kernel and the \<open>int32_t\<close> result: \<open>-1\<close>, \<open>-2\<close>,
  \<open>-3\<close> for the three refusals and \<open>0\<close> on success.
\<close>

definition pulse_add_task ::
  "pulse_cfg \<Rightarrow> pulse_state_t \<Rightarrow> 32 word \<Rightarrow> 'w pulse_tick_f option \<Rightarrow> 'w pulse_kernel_t
     \<Rightarrow> 'w pulse_kernel_t \<times> int" where
  "pulse_add_task cfg init_state period tk k =
     (if period = 0 then (k, - 1)
      else if PULSE_CFG_NULL_TICK_GUARD cfg \<and> tk = None then (k, - 2)
      else if PULSE_MAX_TASKS cfg \<le> task_count k then (k, - 3)
      else
        let idx = task_count k;
            t = (tasks k ! idx)\<lparr>running := 0, state := init_state, period_ticks := period,
                  elapsed_ticks := (if PULSE_CFG_RUN_IMMEDIATELY cfg then period else 0),
                  tick := tk\<rparr>;
            k1 = k\<lparr>tasks := (tasks k)[idx := t]\<rparr>;
            k2 = (if PULSE_CFG_RUN_IMMEDIATELY cfg
                  then k1\<lparr>ready_mask := ready_mask k1 OR pulse_task_bit idx\<rparr> else k1)
        in (k2\<lparr>task_count := (task_count k2 + 1) mod 256\<rparr>, 0))"

definition pulse_is_started :: "'w pulse_kernel_t \<Rightarrow> 8 word" where
  "pulse_is_started k = started k"

definition pulse_tick_period_ms :: "'w pulse_kernel_t \<Rightarrow> 32 word" where
  "pulse_tick_period_ms k = tick_ms k"

section \<open>The tick bookkeeper\<close>

text \<open>
  One iteration of the loop of \<open>pulse_tick_isr\<close> for task \<open>i\<close>: the increment
  (saturating at \<open>0xFFFFFFFF\<close> or wrapping, by the build), then the ready test.
\<close>

definition tick_body :: "pulse_cfg \<Rightarrow> nat \<Rightarrow> 'w pulse_kernel_t \<Rightarrow> 'w pulse_kernel_t" where
  "tick_body cfg i k =
     (let t = tasks k ! i;
          e = (if PULSE_CFG_SATURATE_ELAPSED cfg
               then (if elapsed_ticks t < 0xFFFFFFFF then elapsed_ticks t + 1
                     else elapsed_ticks t)
               else elapsed_ticks t + 1);
          t1 = t\<lparr>elapsed_ticks := e\<rparr>;
          k1 = k\<lparr>tasks := (tasks k)[i := t1]\<rparr>
      in if period_ticks t1 \<le> elapsed_ticks t1
         then (if running t1 = 0
               then k1\<lparr>ready_mask := ready_mask k1 OR pulse_task_bit i\<rparr>
               else k1)
         else k1)"

lemma task_count_tick_body [simp]: "task_count (tick_body cfg i k) = task_count k"
  by (simp add: tick_body_def Let_def)

function tick_loop :: "pulse_cfg \<Rightarrow> nat \<Rightarrow> 'w pulse_kernel_t \<Rightarrow> 'w pulse_kernel_t" where
  "tick_loop cfg i k =
     (if i < task_count k then tick_loop cfg (i + 1) (tick_body cfg i k) else k)"
  by pat_completeness auto
termination
  by (relation "measure (\<lambda>(cfg, i, k). task_count k - i)") auto

declare tick_loop.simps [simp del]

definition pulse_tick_isr :: "pulse_cfg \<Rightarrow> 'w pulse_kernel_t \<Rightarrow> 'w pulse_kernel_t" where
  "pulse_tick_isr cfg k = tick_loop cfg 0 k"

section \<open>The dispatcher\<close>

text \<open>
  The first critical section of an iteration of \<open>pulse_poll\<close>, for the task found:
  clear its bit, mark it running, reset its elapsed counter.
\<close>

definition poll_claim :: "nat \<Rightarrow> 'w pulse_kernel_t \<Rightarrow> 'w pulse_kernel_t" where
  "poll_claim i k =
     (let k1 = k\<lparr>ready_mask := ready_mask k AND NOT (pulse_task_bit i)\<rparr>;
          k2 = k1\<lparr>tasks := (tasks k1)[i := (tasks k1 ! i)\<lparr>running := 1\<rparr>]\<rparr>
      in k2\<lparr>tasks := (tasks k2)[i := (tasks k2 ! i)\<lparr>elapsed_ticks := 0\<rparr>]\<rparr>)"

text \<open>
  The rest of the iteration: call the task function on the stored state, store what it
  returns, clear \<open>running\<close>.  With the null guard a null function is skipped; without
  it the call goes through the null pointer, which is the fault \<open>None\<close>.
\<close>

definition poll_run ::
  "pulse_cfg \<Rightarrow> nat \<Rightarrow> 'w pulse_kernel_t \<Rightarrow> 'w \<Rightarrow> ('w pulse_kernel_t \<times> 'w) option" where
  "poll_run cfg i k w =
     (let t = tasks k ! i
      in case tick t of
           None \<Rightarrow>
             if PULSE_CFG_NULL_TICK_GUARD cfg
             then Some (k\<lparr>tasks := (tasks k)[i := t\<lparr>running := 0\<rparr>]\<rparr>, w)
             else None
         | Some f \<Rightarrow>
             (case f (state t) w of
                (s1, w1) \<Rightarrow>
                  Some (k\<lparr>tasks := (tasks k)[i := t\<lparr>state := s1, running := 0\<rparr>]\<rparr>, w1)))"

section \<open>Facts about the ready mask\<close>

text \<open>
  \<open>ready_ids\<close> lists, in ascending order, the task indices below the capacity whose bit
  is set in a mask.  It is not part of the C code: it is what the specification calls the
  tasks that are ready, and the scan of \<open>pulse_find_lowest_set_bit\<close> is compared with it.
\<close>

lemma bit_task_bit: "bit (pulse_task_bit i) j \<longleftrightarrow> i = j \<and> j < 64"
  unfolding pulse_task_bit_def
  by (auto simp add: bit_simps)

lemma task_bit_test: "(m AND pulse_task_bit i \<noteq> 0) \<longleftrightarrow> bit m i"
proof
  assume "m AND pulse_task_bit i \<noteq> 0"
  then obtain n where "bit (m AND pulse_task_bit i) n"
    by (auto simp add: bit_eq_iff)
  then show "bit m i" by (auto simp add: bit_and_iff bit_task_bit)
next
  assume b: "bit m i"
  then have "i < 64" by (auto dest: bit_imp_le_length)
  with b have "bit (m AND pulse_task_bit i) i" by (simp add: bit_and_iff bit_task_bit)
  then show "m AND pulse_task_bit i \<noteq> 0" by auto
qed

definition ready_ids :: "pulse_cfg \<Rightarrow> 64 word \<Rightarrow> nat list" where
  "ready_ids cfg m = filter (bit m) [0..<PULSE_MAX_TASKS cfg]"

lemma lsb_loop_filter:
  "lsb_loop cfg m i = (case filter (bit m) [i..<PULSE_MAX_TASKS cfg] of [] \<Rightarrow> - 1 | j # _ \<Rightarrow> int j)"
proof (induction cfg m i rule: lsb_loop.induct)
  case (1 cfg m i)
  show ?case
  proof (cases "i < PULSE_MAX_TASKS cfg")
    case True
    then have u: "[i..<PULSE_MAX_TASKS cfg] = i # [i + 1..<PULSE_MAX_TASKS cfg]"
      by (simp add: upt_conv_Cons)
    show ?thesis
    proof (cases "bit m i")
      case True
      with \<open>i < PULSE_MAX_TASKS cfg\<close> u show ?thesis
        by (subst lsb_loop.simps) (simp add: task_bit_test)
    next
      case False
      with \<open>i < PULSE_MAX_TASKS cfg\<close> u 1 show ?thesis
        by (subst lsb_loop.simps) (simp add: task_bit_test)
    qed
  next
    case False
    then show ?thesis by (subst lsb_loop.simps) simp
  qed
qed

lemma find_lowest_ready_ids:
  "pulse_find_lowest_set_bit cfg m = (case ready_ids cfg m of [] \<Rightarrow> - 1 | j # _ \<Rightarrow> int j)"
  unfolding pulse_find_lowest_set_bit_def ready_ids_def by (rule lsb_loop_filter)

lemma filter_neq_head: "distinct (j # rest) \<Longrightarrow> filter (\<lambda>x. x \<noteq> j) (j # rest) = rest"
  by (auto simp add: filter_id_conv)

lemma ready_ids_clear_head:
  assumes "ready_ids cfg m = j # rest"
  shows "ready_ids cfg (m AND NOT (pulse_task_bit j)) = rest"
proof -
  have "distinct (ready_ids cfg m)"
    unfolding ready_ids_def by simp
  then have d: "distinct (j # rest)"
    by (simp only: assms)
  have "ready_ids cfg (m AND NOT (pulse_task_bit j))
        = filter (\<lambda>x. x \<noteq> j) (ready_ids cfg m)"
    unfolding ready_ids_def filter_filter
    by (rule filter_cong) (auto simp add: bit_and_iff bit_not_iff bit_task_bit dest: bit_imp_le_length)
  also have "\<dots> = filter (\<lambda>x. x \<noteq> j) (j # rest)"
    by (simp only: assms)
  also have "\<dots> = rest"
    using d by (rule filter_neq_head)
  finally show ?thesis .
qed

lemma ready_mask_poll_claim: "ready_mask (poll_claim i k) = ready_mask k AND NOT (pulse_task_bit i)"
  by (simp add: poll_claim_def Let_def)

lemma ready_mask_poll_run: "poll_run cfg i k w = Some (k1, w1) \<Longrightarrow> ready_mask k1 = ready_mask k"
  by (auto simp add: poll_run_def Let_def split: option.splits if_splits prod.splits)

lemma find_lowest_nonneg:
  "\<not> pulse_find_lowest_set_bit cfg m < 0 \<Longrightarrow>
     \<exists>rest. ready_ids cfg m = nat (pulse_find_lowest_set_bit cfg m) # rest"
  by (auto simp add: find_lowest_ready_ids split: list.splits)

text \<open>
  \<open>pulse_poll\<close>, in a pass during which no timer interrupt arrives: the loop
  \<open>for (;;)\<close> ends when no bit below the capacity is set.  Each iteration clears the
  lowest such bit and a task function cannot set one, so the number of set bits is a
  measure and the loop returns on every kernel state (with \<open>None\<close> only for the call
  through a null pointer).
\<close>

function pulse_poll ::
  "pulse_cfg \<Rightarrow> 'w pulse_kernel_t \<Rightarrow> 'w \<Rightarrow> ('w pulse_kernel_t \<times> 'w) option" where
  "pulse_poll cfg k w =
     (let i = pulse_find_lowest_set_bit cfg (ready_mask k)
      in if i < 0 then Some (k, w)
         else (case poll_run cfg (nat i) (poll_claim (nat i) k) w of
                 None \<Rightarrow> None
               | Some (k1, w1) \<Rightarrow> pulse_poll cfg k1 w1))"
  by pat_completeness auto
termination
proof (relation "measure (\<lambda>(cfg, k, w). length (ready_ids cfg (ready_mask k)))")
  show "wf (measure (\<lambda>(cfg, k, w). length (ready_ids cfg (ready_mask k))))" by simp
next
  fix cfg :: pulse_cfg and k :: "'w pulse_kernel_t" and w :: 'w and i r k1 w1
  assume i: "i = pulse_find_lowest_set_bit cfg (ready_mask k)" and nn: "\<not> i < 0"
    and run: "poll_run cfg (nat i) (poll_claim (nat i) k) w = Some r" and r: "(k1, w1) = r"
  from nn have "\<exists>rest. ready_ids cfg (ready_mask k) = nat i # rest"
    unfolding i by (rule find_lowest_nonneg)
  then obtain rest where ids: "ready_ids cfg (ready_mask k) = nat i # rest" ..
  from run have "poll_run cfg (nat i) (poll_claim (nat i) k) w = Some (k1, w1)"
    unfolding r [symmetric] .
  then have "ready_mask k1 = ready_mask (poll_claim (nat i) k)"
    by (rule ready_mask_poll_run)
  then have m1: "ready_mask k1 = ready_mask k AND NOT (pulse_task_bit (nat i))"
    by (simp only: ready_mask_poll_claim)
  have e1: "ready_ids cfg (ready_mask k1) = rest"
    unfolding m1 using ids by (rule ready_ids_clear_head)
  have "length (ready_ids cfg (ready_mask k1)) < length (ready_ids cfg (ready_mask k))"
    unfolding e1 ids by simp
  then show "((cfg, k1, w1), (cfg, k, w))
      \<in> measure (\<lambda>(cfg, k, w). length (ready_ids cfg (ready_mask k)))"
    by simp
qed

declare pulse_poll.simps [simp del]

section \<open>The dispatcher with timer interrupts\<close>




section \<open>Sequences of kernel operations\<close>

text \<open>
  A program drives the kernel by calls of \<open>pulse_add_task\<close>, \<open>pulse_tick_isr\<close> and
  \<open>pulse_poll\<close>, and between them changes its own memory (\<open>Other\<close>).  A state is the
  kernel together with that memory.  \<open>run_ops\<close> runs a list of operations and is \<open>None\<close>
  when a \<open>pulse_poll\<close> in it faults.  The operations run one after the other, as
  \<open>drive_ticks\<close> of the hosted tests runs them: \<open>Poll\<close> is a pass with no timer
  interrupt inside it (\<open>pulse_poll_irq\<close> is the pass with interrupts).  \<open>pulse_start\<close>,
  the endless loop around \<open>pulse_poll\<close>, is such a sequence without end and is not a
  function of its own here.
\<close>

datatype 'w pulse_op =
    Register pulse_state_t "32 word" "'w pulse_tick_f option"
  | Tick
  | Poll
  | Other "'w \<Rightarrow> 'w"

fun apply_op ::
  "pulse_cfg \<Rightarrow> 'w pulse_op \<Rightarrow> 'w pulse_kernel_t \<times> 'w \<Rightarrow> ('w pulse_kernel_t \<times> 'w) option" where
  "apply_op cfg (Register s p f) (k, w) = Some (fst (pulse_add_task cfg s p f k), w)"
| "apply_op cfg Tick (k, w) = Some (pulse_tick_isr cfg k, w)"
| "apply_op cfg Poll (k, w) = pulse_poll cfg k w"
| "apply_op cfg (Other g) (k, w) = Some (k, g w)"

fun run_ops ::
  "pulse_cfg \<Rightarrow> 'w pulse_op list \<Rightarrow> 'w pulse_kernel_t \<times> 'w
     \<Rightarrow> ('w pulse_kernel_t \<times> 'w) option" where
  "run_ops cfg [] s = Some s"
| "run_ops cfg (x # xs) s =
     (case apply_op cfg x s of None \<Rightarrow> None | Some s1 \<Rightarrow> run_ops cfg xs s1)"

fun is_tick :: "'w pulse_op \<Rightarrow> bool" where
  "is_tick Tick = True"
| "is_tick _ = False"

definition count_ticks :: "'w pulse_op list \<Rightarrow> nat" where
  "count_ticks ops = length (filter is_tick ops)"

text \<open>
  The states a program can reach: \<open>pulse_init\<close> on the kernel's storage, then any
  operations.
\<close>

inductive reachable :: "pulse_cfg \<Rightarrow> 'w pulse_kernel_t \<times> 'w \<Rightarrow> bool" for cfg where
  reach_init: "array_ok cfg k0 \<Longrightarrow> reachable cfg (pulse_init cfg t k0, w)"
| reach_step: "reachable cfg s \<Longrightarrow> apply_op cfg x s = Some s1 \<Longrightarrow> reachable cfg s1"

section \<open>The hosted test of period timing\<close>

text \<open>
  \<open>pulse_kernel\<close> is a \<open>static\<close>: before \<open>pulse_init\<close> it is all zero.
\<close>

definition pulse_kernel0 :: "pulse_cfg \<Rightarrow> 'w pulse_kernel_t" where
  "pulse_kernel0 cfg =
     \<lparr>tasks = replicate (PULSE_MAX_TASKS cfg)
                \<lparr>running = 0, state = 0, period_ticks = 0, elapsed_ticks = 0, tick = None\<rparr>,
      task_count = 0, ready_mask = 0, started = 0, tick_ms = 0\<rparr>"

text \<open>
  The memory of test_pulse.c: the execution log \<open>g_log\<close> (128 entries; \<open>g_log_len\<close> is
  the length of the list) and the current tick \<open>g_now_tick\<close>.
\<close>

record test_world =
  g_log :: "(32 word \<times> 8 word) list"
  g_now_tick :: "32 word"

definition log_exec :: "8 word \<Rightarrow> test_world \<Rightarrow> test_world" where
  "log_exec task_id w =
     (if length (g_log w) < 128 then w\<lparr>g_log := g_log w @ [(g_now_tick w, task_id)]\<rparr> else w)"

definition reset_log :: "test_world \<Rightarrow> test_world" where
  "reset_log w = w\<lparr>g_log := [], g_now_tick := 0\<rparr>"

definition task0 :: "test_world pulse_tick_f" where
  "task0 s w = (0, log_exec 0 w)"

definition task1 :: "test_world pulse_tick_f" where
  "task1 s w = (0, log_exec 1 w)"

definition task2 :: "test_world pulse_tick_f" where
  "task2 s w = (0, log_exec 2 w)"

text \<open>
  \<open>drive_ticks\<close>: for each of \<open>n_ticks\<close> ticks set \<open>g_now_tick\<close>, call the tick
  bookkeeper, then poll.  The counter is a natural number here; \<open>g_now_tick\<close> is its
  32-bit value.
\<close>

function drive_loop ::
  "pulse_cfg \<Rightarrow> nat \<Rightarrow> nat \<Rightarrow> test_world pulse_kernel_t \<Rightarrow> test_world
     \<Rightarrow> (test_world pulse_kernel_t \<times> test_world) option" where
  "drive_loop cfg n_ticks i k w =
     (if i < n_ticks
      then (case pulse_poll cfg (pulse_tick_isr cfg k) (w\<lparr>g_now_tick := of_nat (i + 1)\<rparr>) of
              None \<Rightarrow> None
            | Some (k1, w1) \<Rightarrow> drive_loop cfg n_ticks (i + 1) k1 w1)
      else Some (k, w))"
  by pat_completeness auto
termination
  by (relation "measure (\<lambda>(cfg, n_ticks, i, k, w). n_ticks - i)") auto

declare drive_loop.simps [simp del]

definition drive_ticks ::
  "pulse_cfg \<Rightarrow> nat \<Rightarrow> test_world pulse_kernel_t \<Rightarrow> test_world
     \<Rightarrow> (test_world pulse_kernel_t \<times> test_world) option" where
  "drive_ticks cfg n_ticks k w = drive_loop cfg n_ticks 0 k w"

text \<open>
  \<open>test_period_timing\<close> up to its \<open>drive_ticks(6u)\<close>: the two results of
  \<open>pulse_add_task\<close> and the state after the six ticks.
\<close>

definition test_period_timing ::
  "pulse_cfg \<Rightarrow> test_world \<Rightarrow> int \<times> int \<times> (test_world pulse_kernel_t \<times> test_world) option" where
  "test_period_timing cfg w =
     (let w0 = reset_log w;
          k0 = pulse_init cfg 1 (pulse_kernel0 cfg);
          (k1, r1) = pulse_add_task cfg 0 2 (Some task0) k0;
          (k2, r2) = pulse_add_task cfg 0 3 (Some task1) k1
      in (r1, r2, drive_ticks cfg 6 k2 w0))"

section \<open>The dispatcher as the specification describes it\<close>

text \<open>
  The specification's words for one dispatch of task \<open>i\<close>: clear its bit, reset its
  elapsed counter to zero, invoke its callable with the stored state, store the returned
  value as the new state, and leave it not running.  (A descriptor without a callable is
  only reset.)  A poll is that, for the ready tasks in ascending order.
\<close>

definition dispatch_spec :: "nat \<Rightarrow> 'w pulse_kernel_t \<times> 'w \<Rightarrow> 'w pulse_kernel_t \<times> 'w" where
  "dispatch_spec i s =
     (let k = fst s; w = snd s; t = tasks k ! i;
          r = (case tick t of None \<Rightarrow> (state t, w) | Some f \<Rightarrow> f (state t) w)
      in (k\<lparr>ready_mask := ready_mask k AND NOT (pulse_task_bit i),
             tasks := (tasks k)[i := t\<lparr>running := 0, state := fst r, elapsed_ticks := 0\<rparr>]\<rparr>,
          snd r))"

definition poll_spec :: "pulse_cfg \<Rightarrow> 'w pulse_kernel_t \<Rightarrow> 'w \<Rightarrow> 'w pulse_kernel_t \<times> 'w" where
  "poll_spec cfg k w = fold dispatch_spec (ready_ids cfg (ready_mask k)) (k, w)"

section \<open>Notions used in the proofs\<close>

text \<open>The counter after one tick, as the loop body computes it.\<close>

definition next_elapsed :: "pulse_cfg \<Rightarrow> 32 word \<Rightarrow> 32 word" where
  "next_elapsed cfg e =
     (if PULSE_CFG_SATURATE_ELAPSED cfg then (if e < 0xFFFFFFFF then e + 1 else e) else e + 1)"

text \<open>The loop of \<open>pulse_poll\<close>, unrolled along a list of task indices.\<close>

fun poll_all ::
  "pulse_cfg \<Rightarrow> nat list \<Rightarrow> 'w pulse_kernel_t \<times> 'w \<Rightarrow> ('w pulse_kernel_t \<times> 'w) option" where
  "poll_all cfg [] s = Some s"
| "poll_all cfg (i # is) s =
     (case poll_run cfg i (poll_claim i (fst s)) (snd s) of
        None \<Rightarrow> None
      | Some s1 \<Rightarrow> poll_all cfg is s1)"

text \<open>The state a task function leaves for its task, called in memory \<open>w\<close>.\<close>

definition after_call :: "'w pulse_task_t \<Rightarrow> 'w \<Rightarrow> pulse_state_t" where
  "after_call t w = (case tick t of None \<Rightarrow> state t | Some f \<Rightarrow> fst (f (state t) w))"

text \<open>
  The three refusals of \<open>pulse_add_task\<close> are the literals \<open>-1\<close>, \<open>-2\<close> and \<open>-3\<close>
  in the code; the specification calls them by these names.
\<close>

definition InvalidPeriod :: int where "InvalidPeriod = - 1"
definition NullFunction :: int where "NullFunction = - 2"
definition CapacityExceeded :: int where "CapacityExceeded = - 3"

text \<open>
  What every reachable kernel satisfies: the array has its size, the count is within the
  capacity, and a set bit of the ready mask belongs to a registered task that is not
  running and, in a saturating build, has reached its period.
\<close>

definition kernel_inv :: "pulse_cfg \<Rightarrow> 'w pulse_kernel_t \<Rightarrow> bool" where
  "kernel_inv cfg k \<longleftrightarrow>
     array_ok cfg k \<and> task_count k \<le> PULSE_MAX_TASKS cfg \<and>
     (\<forall>i. bit (ready_mask k) i \<longrightarrow>
        i < task_count k \<and> running (tasks k ! i) = 0 \<and>
        (PULSE_CFG_SATURATE_ELAPSED cfg \<longrightarrow>
           period_ticks (tasks k ! i) \<le> elapsed_ticks (tasks k ! i)))"

text \<open>
  \<open>quiet cfg i P n k\<close>: task \<open>i\<close> is registered with period \<open>P\<close>, its bit is clear
  and its elapsed counter is at most \<open>n\<close>.
\<close>

definition quiet :: "pulse_cfg \<Rightarrow> nat \<Rightarrow> 32 word \<Rightarrow> nat \<Rightarrow> 'w pulse_kernel_t \<Rightarrow> bool" where
  "quiet cfg i P n k \<longleftrightarrow>
     kernel_inv cfg k \<and> i < task_count k \<and> \<not> bit (ready_mask k) i \<and>
     period_ticks (tasks k ! i) = P \<and> unat (elapsed_ticks (tasks k ! i)) \<le> n"

section \<open>Builds and states used as examples\<close>

text \<open>A build of the tests with the wrapping policy, and an empty test memory.\<close>

definition wrap_cfg :: pulse_cfg where
  "wrap_cfg = test_cfg\<lparr>PULSE_CFG_SATURATE_ELAPSED := False\<rparr>"

definition world0 :: test_world where
  "world0 = \<lparr>g_log = [], g_now_tick = 0\<rparr>"

text \<open>A build of the tests with the deferred policy (\<open>PULSE_CFG_RUN_IMMEDIATELY=0\<close>).\<close>

definition deferred_cfg :: pulse_cfg where
  "deferred_cfg = test_cfg\<lparr>PULSE_CFG_RUN_IMMEDIATELY := False\<rparr>"

text \<open>A build of the tests without the null guard (\<open>PULSE_CFG_NULL_TICK_GUARD=0\<close>).\<close>

definition noguard_cfg :: pulse_cfg where
  "noguard_cfg = test_cfg\<lparr>PULSE_CFG_NULL_TICK_GUARD := False\<rparr>"

text \<open>
  The kernel of \<open>test_period_timing\<close> after its two registrations, as a function of the
  two elapsed counters and the ready mask.
\<close>

definition two_tasks :: "32 word \<Rightarrow> 32 word \<Rightarrow> 64 word \<Rightarrow> test_world pulse_kernel_t" where
  "two_tasks e0 e1 m =
     \<lparr>tasks =
        \<lparr>running = 0, state = 0, period_ticks = 2, elapsed_ticks = e0, tick = Some task0\<rparr> #
        \<lparr>running = 0, state = 0, period_ticks = 3, elapsed_ticks = e1, tick = Some task1\<rparr> #
        replicate 6
          \<lparr>running = 0, state = 0, period_ticks = 0, elapsed_ticks = 0, tick = None\<rparr>,
      task_count = 2, ready_mask = m, started = 0, tick_ms = 1\<rparr>"

section \<open>Facts about initialisation\<close>

lemma length_init_loop [simp]: "length (init_loop cfg i ts) = length ts"
proof (induction cfg i ts rule: init_loop.induct)
  case (1 cfg i ts)
  then show ?case by (subst init_loop.simps) simp
qed

lemma init_loop_nth:
  "j < length ts \<Longrightarrow>
   init_loop cfg i ts ! j =
     (if i \<le> j \<and> j < PULSE_MAX_TASKS cfg
      then \<lparr>running = 0, state = 0, period_ticks = 0, elapsed_ticks = 0, tick = None\<rparr>
      else ts ! j)"
proof (induction cfg i ts rule: init_loop.induct)
  case (1 cfg i ts)
  show ?case
  proof (cases "i < PULSE_MAX_TASKS cfg")
    case True
    with 1 show ?thesis
      by (subst init_loop.simps) (auto simp add: nth_list_update)
  next
    case False
    then show ?thesis by (subst init_loop.simps) auto
  qed
qed

lemma tasks_pulse_init: "tasks (pulse_init cfg t k) = init_loop cfg 0 (tasks k)"
  by (simp add: pulse_init_def Let_def)

lemma pulse_init_nth:
  "array_ok cfg k \<Longrightarrow> j < PULSE_MAX_TASKS cfg \<Longrightarrow>
   tasks (pulse_init cfg t k) ! j =
     \<lparr>running = 0, state = 0, period_ticks = 0, elapsed_ticks = 0, tick = None\<rparr>"
  by (simp add: tasks_pulse_init init_loop_nth array_ok_def)

lemma array_ok_pulse_init: "array_ok cfg k \<Longrightarrow> array_ok cfg (pulse_init cfg t k)"
  by (simp add: array_ok_def tasks_pulse_init)

lemma pulse_init_kernel0:
  "pulse_init cfg t (pulse_kernel0 cfg) =
     (pulse_kernel0 cfg)\<lparr>tick_ms := (if t = 0 then 1 else t)\<rparr>"
proof -
  have "init_loop cfg 0 (tasks (pulse_kernel0 cfg)) = tasks (pulse_kernel0 cfg)"
    by (rule nth_equalityI) (simp_all add: init_loop_nth pulse_kernel0_def)
  then show ?thesis
    by (simp add: pulse_init_def Let_def pulse_kernel0_def)
qed

section \<open>Facts about registration\<close>

lemma add_task_success:
  assumes "period \<noteq> 0" and "PULSE_CFG_NULL_TICK_GUARD cfg \<longrightarrow> tk \<noteq> None"
    and "task_count k < PULSE_MAX_TASKS cfg" 
  shows "pulse_add_task cfg s period tk k =
     (k\<lparr>tasks := (tasks k)[task_count k :=
                     (tasks k ! task_count k)\<lparr>running := 0, state := s, period_ticks := period,
                        elapsed_ticks := (if PULSE_CFG_RUN_IMMEDIATELY cfg then period else 0),
                        tick := tk\<rparr>],
        ready_mask := (if PULSE_CFG_RUN_IMMEDIATELY cfg
                       then ready_mask k OR pulse_task_bit (task_count k) else ready_mask k),
        task_count := (task_count k + 1) mod 256\<rparr>, 0)"
  using assms by (simp add: pulse_add_task_def Let_def)

lemma add_task_cases:
  "pulse_add_task cfg s period tk k = (k, - 1) \<and> period = 0 \<or>
   pulse_add_task cfg s period tk k = (k, - 2) \<and> period \<noteq> 0 \<and> PULSE_CFG_NULL_TICK_GUARD cfg \<and> tk = None \<or>
   pulse_add_task cfg s period tk k = (k, - 3) \<and> period \<noteq> 0 \<and> PULSE_MAX_TASKS cfg \<le> task_count k \<or>
   snd (pulse_add_task cfg s period tk k) = 0 \<and> period \<noteq> 0
     \<and> (PULSE_CFG_NULL_TICK_GUARD cfg \<longrightarrow> tk \<noteq> None) \<and> task_count k < PULSE_MAX_TASKS cfg"
  by (simp add: pulse_add_task_def Let_def)

section \<open>Facts about the tick bookkeeper\<close>

lemma tasks_tick_body:
  "tasks (tick_body cfg i k) =
     (tasks k)[i := (tasks k ! i)\<lparr>elapsed_ticks := next_elapsed cfg (elapsed_ticks (tasks k ! i))\<rparr>]"
  by (simp add: tick_body_def Let_def next_elapsed_def)

lemma ready_mask_tick_body:
  "ready_mask (tick_body cfg i k) =
     (if period_ticks (tasks k ! i) \<le> next_elapsed cfg (elapsed_ticks (tasks k ! i))
         \<and> running (tasks k ! i) = 0
      then ready_mask k OR pulse_task_bit i else ready_mask k)"
  by (simp add: tick_body_def Let_def next_elapsed_def)

lemma other_tick_body [simp]:
  "started (tick_body cfg i k) = started k" "tick_ms (tick_body cfg i k) = tick_ms k"
  by (simp_all add: tick_body_def Let_def)

lemma tick_loop_fields [simp]:
  "task_count (tick_loop cfg i k) = task_count k"
  "length (tasks (tick_loop cfg i k)) = length (tasks k)"
  "started (tick_loop cfg i k) = started k"
  "tick_ms (tick_loop cfg i k) = tick_ms k"
proof (induction cfg i k rule: tick_loop.induct)
  case (1 cfg i k)
  {
    case 1
    from "1.IH"(1) show ?case by (subst tick_loop.simps) simp
  next
    case 2
    from "1.IH"(2) show ?case by (subst tick_loop.simps) (simp add: tasks_tick_body)
  next
    case 3
    from "1.IH"(3) show ?case by (subst tick_loop.simps) simp
  next
    case 4
    from "1.IH"(4) show ?case by (subst tick_loop.simps) simp
  }
qed

lemma tick_loop_nth:
  "task_count k \<le> length (tasks k) \<Longrightarrow>
   tasks (tick_loop cfg i k) ! j =
     (if i \<le> j \<and> j < task_count k
      then (tasks k ! j)\<lparr>elapsed_ticks := next_elapsed cfg (elapsed_ticks (tasks k ! j))\<rparr>
      else tasks k ! j)"
proof (induction cfg i k rule: tick_loop.induct)
  case (1 cfg i k)
  show ?case
  proof (cases "i < task_count k")
    case True
    with 1 show ?thesis
      by (subst tick_loop.simps) (auto simp add: tasks_tick_body nth_list_update)
  next
    case False
    then show ?thesis by (subst tick_loop.simps) auto
  qed
qed

lemma tick_loop_bit:
  "task_count k \<le> length (tasks k) \<Longrightarrow>
   bit (ready_mask (tick_loop cfg i k)) j \<longleftrightarrow>
     bit (ready_mask k) j \<or>
     (i \<le> j \<and> j < task_count k \<and> j < 64
      \<and> period_ticks (tasks k ! j) \<le> next_elapsed cfg (elapsed_ticks (tasks k ! j))
      \<and> running (tasks k ! j) = 0)"
proof (induction cfg i k rule: tick_loop.induct)
  case (1 cfg i k)
  show ?case
  proof (cases "i < task_count k")
    case True
    with 1 show ?thesis
      by (subst tick_loop.simps)
        (auto simp add: tasks_tick_body ready_mask_tick_body nth_list_update bit_or_iff bit_task_bit)
  next
    case False
    then show ?thesis by (subst tick_loop.simps) auto
  qed
qed

section \<open>Facts about the dispatcher\<close>

lemma pulse_poll_poll_all:
  "pulse_poll cfg k w = poll_all cfg (ready_ids cfg (ready_mask k)) (k, w)"
proof (induction cfg k w rule: pulse_poll.induct)
  case (1 cfg k w)
  let ?i = "pulse_find_lowest_set_bit cfg (ready_mask k)"
  show ?case
  proof (cases "?i < 0")
    case True
    then have "ready_ids cfg (ready_mask k) = []"
      by (simp add: find_lowest_ready_ids split: list.splits)
    with True show ?thesis by (subst pulse_poll.simps) simp
  next
    case False
    then obtain rest where ids: "ready_ids cfg (ready_mask k) = nat ?i # rest"
      using find_lowest_nonneg by blast
    show ?thesis
    proof (cases "poll_run cfg (nat ?i) (poll_claim (nat ?i) k) w")
      case None
      with False ids show ?thesis by (subst pulse_poll.simps) simp
    next
      case (Some r)
      obtain k1 w1 where r: "r = (k1, w1)" by (cases r)
      from Some r have "ready_mask k1 = ready_mask (poll_claim (nat ?i) k)"
        by (simp add: ready_mask_poll_run)
      then have "ready_ids cfg (ready_mask k1) = rest"
        using ready_ids_clear_head [OF ids] by (simp only: ready_mask_poll_claim)
      moreover have "pulse_poll cfg k1 w1 = poll_all cfg (ready_ids cfg (ready_mask k1)) (k1, w1)"
        using "1.IH" [OF refl False Some r [symmetric]] .
      ultimately show ?thesis
        using False ids Some r by (subst pulse_poll.simps) simp
    qed
  qed
qed

lemma poll_step_spec:
  assumes "PULSE_CFG_NULL_TICK_GUARD cfg \<or> tick (tasks k ! i) \<noteq> None"
    and "i < length (tasks k)"
  shows "poll_run cfg i (poll_claim i k) w = Some (dispatch_spec i (k, w))"
proof (cases "tasks k ! i")
  case (fields r s p e f)
  with assms show ?thesis
    by (auto simp add: poll_run_def poll_claim_def dispatch_spec_def Let_def
        split: option.splits prod.splits)
qed

lemma dispatch_spec_fields [simp]:
  "task_count (fst (dispatch_spec i s)) = task_count (fst s)"
  "length (tasks (fst (dispatch_spec i s))) = length (tasks (fst s))"
  "started (fst (dispatch_spec i s)) = started (fst s)"
  "tick_ms (fst (dispatch_spec i s)) = tick_ms (fst s)"
  "ready_mask (fst (dispatch_spec i s)) = ready_mask (fst s) AND NOT (pulse_task_bit i)"
  by (simp_all add: dispatch_spec_def Let_def)

lemma dispatch_spec_other:
  "j \<noteq> i \<Longrightarrow> tasks (fst (dispatch_spec i s)) ! j = tasks (fst s) ! j"
  by (simp add: dispatch_spec_def Let_def)

lemma dispatch_spec_self:
  "i < length (tasks (fst s)) \<Longrightarrow>
   tasks (fst (dispatch_spec i s)) ! i =
     (tasks (fst s) ! i)\<lparr>running := 0, state := after_call (tasks (fst s) ! i) (snd s),
        elapsed_ticks := 0\<rparr>"
  by (simp add: dispatch_spec_def after_call_def Let_def split: option.splits)

lemma fold_dispatch_fields [simp]:
  "task_count (fst (fold dispatch_spec ids s)) = task_count (fst s)"
  "length (tasks (fst (fold dispatch_spec ids s))) = length (tasks (fst s))"
  "started (fst (fold dispatch_spec ids s)) = started (fst s)"
  "tick_ms (fst (fold dispatch_spec ids s)) = tick_ms (fst s)"
  by (induction ids arbitrary: s) simp_all

lemma fold_dispatch_bit:
  "bit (ready_mask (fst (fold dispatch_spec ids s))) j \<longleftrightarrow>
     bit (ready_mask (fst s)) j \<and> j \<notin> set ids"
  by (induction ids arbitrary: s) (auto simp add: bit_and_iff bit_not_iff bit_task_bit dest: bit_imp_le_length)

lemma fold_dispatch_other:
  "j \<notin> set ids \<Longrightarrow> tasks (fst (fold dispatch_spec ids s)) ! j = tasks (fst s) ! j"
  by (induction ids arbitrary: s) (auto simp add: dispatch_spec_other)

lemma fold_dispatch_self:
  "j \<in> set ids \<Longrightarrow> distinct ids \<Longrightarrow> j < length (tasks (fst s)) \<Longrightarrow>
   \<exists>wj. tasks (fst (fold dispatch_spec ids s)) ! j =
     (tasks (fst s) ! j)\<lparr>running := 0, state := after_call (tasks (fst s) ! j) wj,
        elapsed_ticks := 0\<rparr>"
proof (induction ids arbitrary: s)
  case Nil
  then show ?case by simp
next
  case (Cons i ids)
  show ?case
  proof (cases "j = i")
    case True
    with Cons.prems have "j \<notin> set ids" by simp
    then have "tasks (fst (fold dispatch_spec (i # ids) s)) ! j = tasks (fst (dispatch_spec i s)) ! j"
      by (simp add: fold_dispatch_other)
    with True Cons.prems(3) show ?thesis
      by (auto simp add: dispatch_spec_self)
  next
    case False
    with Cons.prems have "j \<in> set ids" "distinct ids" "j < length (tasks (fst (dispatch_spec i s)))"
      by simp_all
    from Cons.IH [OF this] obtain wj where
      "tasks (fst (fold dispatch_spec ids (dispatch_spec i s))) ! j =
        (tasks (fst (dispatch_spec i s)) ! j)\<lparr>running := 0,
          state := after_call (tasks (fst (dispatch_spec i s)) ! j) wj, elapsed_ticks := 0\<rparr>"
      by blast
    moreover from False have "tasks (fst (dispatch_spec i s)) ! j = tasks (fst s) ! j"
      by (rule dispatch_spec_other)
    ultimately show ?thesis by auto
  qed
qed

lemma poll_all_spec:
  assumes "\<forall>i\<in>set ids. i < length (tasks (fst s))"
    and "PULSE_CFG_NULL_TICK_GUARD cfg \<or> (\<forall>i\<in>set ids. tick (tasks (fst s) ! i) \<noteq> None)"
    and "distinct ids"
  shows "poll_all cfg ids s = Some (fold dispatch_spec ids s)"
  using assms
proof (induction ids arbitrary: s)
  case Nil
  then show ?case by simp
next
  case (Cons i ids)
  obtain k w where s: "s = (k, w)" by (cases s)
  from Cons.prems s have step: "poll_run cfg i (poll_claim i k) w = Some (dispatch_spec i s)"
    by (auto intro: poll_step_spec)
  have "poll_all cfg ids (dispatch_spec i s) = Some (fold dispatch_spec ids (dispatch_spec i s))"
  proof (rule Cons.IH)
    show "\<forall>j\<in>set ids. j < length (tasks (fst (dispatch_spec i s)))"
      using Cons.prems(1) by simp
    from Cons.prems(3) have "\<forall>j\<in>set ids. j \<noteq> i" by auto
    then have "\<forall>j\<in>set ids. tasks (fst (dispatch_spec i s)) ! j = tasks (fst s) ! j"
      by (simp add: dispatch_spec_other)
    then show "PULSE_CFG_NULL_TICK_GUARD cfg \<or>
        (\<forall>j\<in>set ids. tick (tasks (fst (dispatch_spec i s)) ! j) \<noteq> None)"
      using Cons.prems(2) by auto
    show "distinct ids" using Cons.prems(3) by simp
  qed
  with step s show ?case by simp
qed

lemma ready_ids_props:
  "distinct (ready_ids cfg m)" "sorted_wrt (<) (ready_ids cfg m)"
  "set (ready_ids cfg m) = {i. i < PULSE_MAX_TASKS cfg \<and> bit m i}"
  by (auto simp add: ready_ids_def sorted_wrt_filter)

lemma pulse_poll_spec:
  assumes "array_ok cfg k"
    and "PULSE_CFG_NULL_TICK_GUARD cfg \<or>
         (\<forall>i\<in>set (ready_ids cfg (ready_mask k)). tick (tasks k ! i) \<noteq> None)"
  shows "pulse_poll cfg k w = Some (poll_spec cfg k w)"
  unfolding pulse_poll_poll_all poll_spec_def
  using assms by (intro poll_all_spec) (auto simp add: ready_ids_props array_ok_def)

section \<open>Facts about the test build\<close>

lemma cfg_ok_test: "cfg_ok test_cfg" "cfg_ok default_cfg"
  by (simp_all add: cfg_ok_def test_cfg_def default_cfg_def)

lemma test_cfg_simps [simp]:
  "PULSE_MAX_TASKS test_cfg = 8" "PULSE_CFG_NULL_TICK_GUARD test_cfg"
  "PULSE_CFG_RUN_IMMEDIATELY test_cfg" "PULSE_CFG_SATURATE_ELAPSED test_cfg"
  by (simp_all add: test_cfg_def default_cfg_def)

lemma test_init:
  "pulse_init test_cfg 1 (pulse_kernel0 test_cfg) =
     \<lparr>tasks = replicate 8
                \<lparr>running = 0, state = 0, period_ticks = 0, elapsed_ticks = 0, tick = None\<rparr>,
      task_count = 0, ready_mask = 0, started = 0, tick_ms = 1\<rparr>"
  by (simp only: pulse_init_kernel0) (simp add: pulse_kernel0_def)

section \<open>The invariant of the ready mask\<close>

lemma next_elapsed_saturating:
  "PULSE_CFG_SATURATE_ELAPSED cfg \<Longrightarrow> e \<le> next_elapsed cfg e"
proof -
  assume sat: "PULSE_CFG_SATURATE_ELAPSED cfg"
  show ?thesis
  proof (cases "e < 0xFFFFFFFF")
    case True
    then have "e \<le> e + 1" by (simp add: word_le_nat_alt word_less_nat_alt unat_word_ariths)
    with sat True show ?thesis by (simp add: next_elapsed_def)
  next
    case False
    with sat show ?thesis by (simp add: next_elapsed_def)
  qed
qed

lemma kernel_inv_init: "array_ok cfg k0 \<Longrightarrow> kernel_inv cfg (pulse_init cfg t k0)"
  by (simp add: kernel_inv_def array_ok_pulse_init) (simp add: pulse_init_def Let_def)

lemma kernel_inv_add_task:
  assumes "cfg_ok cfg" and "kernel_inv cfg k"
  shows "kernel_inv cfg (fst (pulse_add_task cfg s period tk k))"
proof -
  consider (fail) "fst (pulse_add_task cfg s period tk k) = k"
    | (ok) "period \<noteq> 0" "PULSE_CFG_NULL_TICK_GUARD cfg \<longrightarrow> tk \<noteq> None"
        "task_count k < PULSE_MAX_TASKS cfg"
    using add_task_cases [of cfg s period tk k] by auto
  then show ?thesis
  proof cases
    case fail
    with assms(2) show ?thesis by simp
  next
    case ok
    from assms(1) ok(3) have small: "task_count k + 1 < 256" "task_count k < 64"
      by (simp_all add: cfg_ok_def)
    from assms(2) ok(3) have len: "task_count k < length (tasks k)"
      by (simp add: kernel_inv_def array_ok_def)
    from assms(2) have old: "\<And>i. bit (ready_mask k) i \<Longrightarrow>
        i < task_count k \<and> running (tasks k ! i) = 0 \<and>
        (PULSE_CFG_SATURATE_ELAPSED cfg \<longrightarrow>
           period_ticks (tasks k ! i) \<le> elapsed_ticks (tasks k ! i))"
      by (simp add: kernel_inv_def)
    show ?thesis
      unfolding add_task_success [OF ok] kernel_inv_def
      using assms(2) ok(3) small len
      by (auto simp add: kernel_inv_def array_ok_def nth_list_update bit_or_iff bit_task_bit
          dest: old)
  qed
qed

lemma kernel_inv_tick:
  assumes "kernel_inv cfg k"
  shows "kernel_inv cfg (pulse_tick_isr cfg k)"
proof -
  from assms have le: "task_count k \<le> length (tasks k)"
    by (simp add: kernel_inv_def array_ok_def)
  from assms have old: "\<And>i. bit (ready_mask k) i \<Longrightarrow>
        i < task_count k \<and> running (tasks k ! i) = 0 \<and>
        (PULSE_CFG_SATURATE_ELAPSED cfg \<longrightarrow>
           period_ticks (tasks k ! i) \<le> elapsed_ticks (tasks k ! i))"
    by (simp add: kernel_inv_def)
  have sat: "\<And>i. PULSE_CFG_SATURATE_ELAPSED cfg \<Longrightarrow>
      period_ticks (tasks k ! i) \<le> elapsed_ticks (tasks k ! i) \<Longrightarrow>
      period_ticks (tasks k ! i) \<le> next_elapsed cfg (elapsed_ticks (tasks k ! i))"
    using next_elapsed_saturating order_trans by blast
  show ?thesis
    unfolding kernel_inv_def pulse_tick_isr_def
    using assms
    by (auto simp add: kernel_inv_def array_ok_def tick_loop_nth [OF le] tick_loop_bit [OF le]
        dest: old intro: sat)
qed

lemma poll_run_Some_spec:
  assumes "i < length (tasks k)" and "poll_run cfg i (poll_claim i k) w = Some r"
  shows "r = dispatch_spec i (k, w)"
proof -
  from assms(1) have "tick (tasks (poll_claim i k) ! i) = tick (tasks k ! i)"
    by (simp add: poll_claim_def Let_def)
  with assms(2) have "PULSE_CFG_NULL_TICK_GUARD cfg \<or> tick (tasks k ! i) \<noteq> None"
    by (auto simp add: poll_run_def Let_def split: option.splits if_splits)
  from poll_step_spec [OF this assms(1)] assms(2) show ?thesis by simp
qed

lemma poll_all_Some_spec:
  "poll_all cfg ids s = Some r \<Longrightarrow> \<forall>i\<in>set ids. i < length (tasks (fst s)) \<Longrightarrow>
   r = fold dispatch_spec ids s"
proof (induction ids arbitrary: s)
  case Nil
  then show ?case by simp
next
  case (Cons i ids)
  from Cons.prems(1) obtain s1 where
    s1: "poll_run cfg i (poll_claim i (fst s)) (snd s) = Some s1" and r: "poll_all cfg ids s1 = Some r"
    by (auto split: option.splits)
  from Cons.prems(2) s1 have e: "s1 = dispatch_spec i s"
    using poll_run_Some_spec [of i "fst s" cfg "snd s" s1] by simp
  from Cons.prems(2) have "\<forall>j\<in>set ids. j < length (tasks (fst (dispatch_spec i s)))" by simp
  with Cons.IH [of "dispatch_spec i s"] r e show ?case by simp
qed

lemma pulse_poll_Some_spec:
  assumes "array_ok cfg k" and "pulse_poll cfg k w = Some r"
  shows "r = poll_spec cfg k w"
  unfolding poll_spec_def
  using assms by (intro poll_all_Some_spec [of cfg]) (auto simp add: pulse_poll_poll_all ready_ids_props array_ok_def)

lemma kernel_inv_poll_spec:
  assumes "kernel_inv cfg k"
  shows "kernel_inv cfg (fst (poll_spec cfg k w))"
proof -
  let ?ids = "ready_ids cfg (ready_mask k)"
  from assms have old: "\<And>i. bit (ready_mask k) i \<Longrightarrow>
        i < task_count k \<and> running (tasks k ! i) = 0 \<and>
        (PULSE_CFG_SATURATE_ELAPSED cfg \<longrightarrow>
           period_ticks (tasks k ! i) \<le> elapsed_ticks (tasks k ! i))"
    by (simp add: kernel_inv_def)
  have keep: "\<And>j. bit (ready_mask (fst (poll_spec cfg k w))) j \<Longrightarrow>
      bit (ready_mask k) j \<and> tasks (fst (poll_spec cfg k w)) ! j = tasks k ! j"
    by (simp add: poll_spec_def fold_dispatch_bit fold_dispatch_other)
  have f: "task_count (fst (poll_spec cfg k w)) = task_count k"
    "length (tasks (fst (poll_spec cfg k w))) = length (tasks k)"
    by (simp_all add: poll_spec_def)
  show ?thesis
    unfolding kernel_inv_def
    using assms f
    by (auto simp add: kernel_inv_def array_ok_def dest!: keep dest: old)
qed

lemma kernel_inv_apply_op:
  assumes "cfg_ok cfg" and "kernel_inv cfg (fst s)" and "apply_op cfg x s = Some s1"
  shows "kernel_inv cfg (fst s1)"
proof (cases s)
  case (Pair k w)
  show ?thesis
  proof (cases x)
    case (Register st p f)
    with assms Pair show ?thesis by (auto simp add: kernel_inv_add_task)
  next
    case Tick
    with assms Pair show ?thesis by (auto simp add: kernel_inv_tick)
  next
    case Poll
    with assms Pair have "s1 = poll_spec cfg k w"
      by (auto simp add: kernel_inv_def intro: pulse_poll_Some_spec)
    with assms Pair show ?thesis by (simp add: kernel_inv_poll_spec)
  next
    case (Other g)
    with assms Pair show ?thesis by auto
  qed
qed

lemma reachable_inv: "reachable cfg s \<Longrightarrow> cfg_ok cfg \<Longrightarrow> kernel_inv cfg (fst s)"
proof (induction rule: reachable.induct)
  case (reach_init k0 t w)
  then show ?case by (simp add: kernel_inv_init)
next
  case (reach_step s x s1)
  then show ?case using kernel_inv_apply_op by blast
qed

section \<open>Concrete runs used as examples\<close>

lemma reachable_run_ops:
  "reachable cfg s \<Longrightarrow> run_ops cfg ops s = Some s1 \<Longrightarrow> reachable cfg s1"
proof (induction ops arbitrary: s)
  case Nil
  then show ?case by simp
next
  case (Cons x ops)
  from Cons.prems(2) obtain s2 where
    a: "apply_op cfg x s = Some s2" and b: "run_ops cfg ops s2 = Some s1"
    by (auto split: option.splits)
  from Cons.prems(1) a have "reachable cfg s2" by (rule reach_step)
  then show ?case using b by (rule Cons.IH)
qed

lemma reachable_kernel0:
  "reachable cfg (pulse_init cfg t (pulse_kernel0 cfg), w)"
  by (rule reach_init) (simp add: array_ok_def pulse_kernel0_def)

lemma wrap_cfg_simps [simp]:
  "PULSE_MAX_TASKS wrap_cfg = 8" "PULSE_CFG_NULL_TICK_GUARD wrap_cfg"
  "PULSE_CFG_RUN_IMMEDIATELY wrap_cfg" "\<not> PULSE_CFG_SATURATE_ELAPSED wrap_cfg"
  by (simp_all add: wrap_cfg_def)

lemma cfg_ok_wrap: "cfg_ok wrap_cfg"
  by (simp add: cfg_ok_def)

lemma wrap_init:
  "pulse_init wrap_cfg 1 (pulse_kernel0 wrap_cfg) =
     \<lparr>tasks = replicate 8
                \<lparr>running = 0, state = 0, period_ticks = 0, elapsed_ticks = 0, tick = None\<rparr>,
      task_count = 0, ready_mask = 0, started = 0, tick_ms = 1\<rparr>"
  by (simp only: pulse_init_kernel0) (simp add: pulse_kernel0_def)

section \<open>Facts about repeated ticks\<close>

lemma tick_isr_fields [simp]:
  "task_count (pulse_tick_isr cfg k) = task_count k"
  "length (tasks (pulse_tick_isr cfg k)) = length (tasks k)"
  by (simp_all add: pulse_tick_isr_def)

lemma tick_isr_funpow_fields [simp]:
  "task_count ((pulse_tick_isr cfg ^^ n) k) = task_count k"
  "length (tasks ((pulse_tick_isr cfg ^^ n) k)) = length (tasks k)"
  by (induction n) simp_all

lemma tick_isr_nth:
  "task_count k \<le> length (tasks k) \<Longrightarrow> i < task_count k \<Longrightarrow>
   tasks (pulse_tick_isr cfg k) ! i =
     (tasks k ! i)\<lparr>elapsed_ticks := next_elapsed cfg (elapsed_ticks (tasks k ! i))\<rparr>"
  by (simp add: pulse_tick_isr_def tick_loop_nth)

lemma unat_next_elapsed_saturating:
  assumes "PULSE_CFG_SATURATE_ELAPSED cfg"
  shows "unat (next_elapsed cfg e) = min (unat e + 1) 4294967295"
proof (cases "e < 0xFFFFFFFF")
  case True
  then have "unat e < 4294967295" by (simp add: word_less_nat_alt)
  then have "unat (e + 1) = unat e + 1" by (simp add: unat_word_ariths)
  with assms True \<open>unat e < 4294967295\<close> show ?thesis by (simp add: next_elapsed_def)
next
  case False
  then have "4294967295 \<le> unat e" by (simp add: word_less_nat_alt)
  moreover have "unat e < 2 ^ LENGTH(32)" by (rule unsigned_less)
  then have "unat e < 4294967296" by simp
  ultimately show ?thesis using assms False by (simp add: next_elapsed_def)
qed

lemma tick_isr_funpow_elapsed:
  assumes "PULSE_CFG_SATURATE_ELAPSED cfg" and "task_count k \<le> length (tasks k)"
    and "i < task_count k"
  shows "unat (elapsed_ticks (tasks ((pulse_tick_isr cfg ^^ n) k) ! i)) =
           min (unat (elapsed_ticks (tasks k ! i)) + n) 4294967295"
proof (induction n)
  case 0
  have "unat (elapsed_ticks (tasks k ! i)) < 2 ^ LENGTH(32)" by (rule unsigned_less)
  then show ?case by simp
next
  case (Suc n)
  from assms(2,3) have "tasks (pulse_tick_isr cfg ((pulse_tick_isr cfg ^^ n) k)) ! i =
      (tasks ((pulse_tick_isr cfg ^^ n) k) ! i)\<lparr>elapsed_ticks :=
         next_elapsed cfg (elapsed_ticks (tasks ((pulse_tick_isr cfg ^^ n) k) ! i))\<rparr>"
    by (intro tick_isr_nth) simp_all
  with Suc assms(1) show ?case
    by (simp add: unat_next_elapsed_saturating)
qed

text \<open>One registration in the wrapping build, with the largest period.\<close>

lemma wrap_registered:
  "fst (pulse_add_task wrap_cfg 0 0xFFFFFFFF (Some task0)
          (pulse_init wrap_cfg 1 (pulse_kernel0 wrap_cfg))) =
     \<lparr>tasks = (replicate 8
                \<lparr>running = 0, state = 0, period_ticks = 0, elapsed_ticks = 0, tick = None\<rparr>)
                [0 := \<lparr>running = 0, state = 0, period_ticks = 0xFFFFFFFF,
                        elapsed_ticks = 0xFFFFFFFF, tick = Some task0\<rparr>],
      task_count = 1, ready_mask = 0 OR pulse_task_bit 0, started = 0, tick_ms = 1\<rparr>"
  unfolding wrap_init by (simp add: pulse_add_task_def Let_def)

text \<open>One registration in the test build, with period 2.\<close>

lemma test_registered:
  "fst (pulse_add_task test_cfg 0 2 (Some task0)
          (pulse_init test_cfg 1 (pulse_kernel0 test_cfg))) =
     \<lparr>tasks = (replicate 8
                \<lparr>running = 0, state = 0, period_ticks = 0, elapsed_ticks = 0, tick = None\<rparr>)
                [0 := \<lparr>running = 0, state = 0, period_ticks = 2,
                        elapsed_ticks = 2, tick = Some task0\<rparr>],
      task_count = 1, ready_mask = 0 OR pulse_task_bit 0, started = 0, tick_ms = 1\<rparr>"
  unfolding test_init by (simp add: pulse_add_task_def Let_def)

section \<open>A task that is not yet due stays unready\<close>

lemma unat_next_elapsed_le: "unat (next_elapsed cfg e) \<le> unat e + 1"
proof -
  have "unat (e + 1) \<le> unat e + 1"
    by (simp add: unat_word_ariths)
  then show ?thesis by (simp add: next_elapsed_def)
qed

lemma quiet_add_task:
  assumes "cfg_ok cfg" and "quiet cfg i P n k"
  shows "quiet cfg i P n (fst (pulse_add_task cfg s period tk k))"
proof -
  have inv: "kernel_inv cfg (fst (pulse_add_task cfg s period tk k))"
    using assms by (simp add: quiet_def kernel_inv_add_task)
  consider (fail) "fst (pulse_add_task cfg s period tk k) = k"
    | (ok) "period \<noteq> 0" "PULSE_CFG_NULL_TICK_GUARD cfg \<longrightarrow> tk \<noteq> None"
        "task_count k < PULSE_MAX_TASKS cfg"
    using add_task_cases [of cfg s period tk k] by auto
  then show ?thesis
  proof cases
    case fail
    with assms(2) show ?thesis by simp
  next
    case ok
    from assms(1) ok(3) have small: "task_count k + 1 < 256" by (simp add: cfg_ok_def)
    from assms(2) have i: "i < task_count k" by (simp add: quiet_def)
    from inv assms(2) small i show ?thesis
      unfolding quiet_def add_task_success [OF ok]
      by (auto simp add: bit_or_iff bit_task_bit)
  qed
qed

lemma quiet_tick:
  assumes "quiet cfg i P n k" and "Suc n < unat P"
  shows "quiet cfg i P (Suc n) (pulse_tick_isr cfg k)"
proof -
  let ?e = "elapsed_ticks (tasks k ! i)"
  from assms(1) have inv: "kernel_inv cfg k" and i: "i < task_count k"
    and nb: "\<not> bit (ready_mask k) i" and p: "period_ticks (tasks k ! i) = P"
    and e: "unat ?e \<le> n"
    by (simp_all add: quiet_def)
  from inv have le: "task_count k \<le> length (tasks k)"
    by (simp add: kernel_inv_def array_ok_def)
  have "unat (next_elapsed cfg ?e) \<le> Suc n"
    using unat_next_elapsed_le [of cfg ?e] e by simp
  with assms(2) have small: "unat (next_elapsed cfg ?e) < unat P" by simp
  then have "\<not> P \<le> next_elapsed cfg ?e" by (simp add: word_le_nat_alt)
  with nb p have "\<not> bit (ready_mask (pulse_tick_isr cfg k)) i"
    by (simp add: pulse_tick_isr_def tick_loop_bit [OF le])
  moreover have "tasks (pulse_tick_isr cfg k) ! i = (tasks k ! i)\<lparr>elapsed_ticks := next_elapsed cfg ?e\<rparr>"
    using le i by (rule tick_isr_nth)
  moreover have "kernel_inv cfg (pulse_tick_isr cfg k)" using inv by (rule kernel_inv_tick)
  ultimately show ?thesis
    using i p \<open>unat (next_elapsed cfg ?e) \<le> Suc n\<close> by (simp add: quiet_def)
qed

lemma quiet_poll_spec:
  assumes "quiet cfg i P n k"
  shows "quiet cfg i P n (fst (poll_spec cfg k w))"
proof -
  from assms have nb: "\<not> bit (ready_mask k) i" by (simp add: quiet_def)
  then have "i \<notin> set (ready_ids cfg (ready_mask k))" by (simp add: ready_ids_props)
  then have "tasks (fst (poll_spec cfg k w)) ! i = tasks k ! i"
    by (simp add: poll_spec_def fold_dispatch_other)
  moreover from nb have "\<not> bit (ready_mask (fst (poll_spec cfg k w))) i"
    by (simp add: poll_spec_def fold_dispatch_bit)
  moreover have "task_count (fst (poll_spec cfg k w)) = task_count k"
    by (simp add: poll_spec_def)
  moreover from assms have "kernel_inv cfg (fst (poll_spec cfg k w))"
    by (simp add: quiet_def kernel_inv_poll_spec)
  ultimately show ?thesis using assms by (simp add: quiet_def)
qed

lemma quiet_apply_op:
  assumes "cfg_ok cfg" and "quiet cfg i P n (fst s)" and "apply_op cfg x s = Some s1"
    and "is_tick x \<longrightarrow> Suc n < unat P"
  shows "quiet cfg i P (if is_tick x then Suc n else n) (fst s1)"
proof (cases s)
  case (Pair k w)
  show ?thesis
  proof (cases x)
    case (Register st p f)
    with assms Pair show ?thesis by (auto simp add: quiet_add_task)
  next
    case Tick
    with assms Pair show ?thesis by (auto simp add: quiet_tick)
  next
    case Poll
    with assms Pair have "s1 = poll_spec cfg k w"
      by (auto simp add: quiet_def kernel_inv_def intro: pulse_poll_Some_spec)
    with assms Pair Poll show ?thesis by (simp add: quiet_poll_spec)
  next
    case (Other g)
    with assms Pair show ?thesis by auto
  qed
qed

lemma quiet_run_ops:
  assumes "cfg_ok cfg"
  shows "quiet cfg i P n (fst s) \<Longrightarrow> run_ops cfg ops s = Some s1 \<Longrightarrow>
         n + count_ticks ops < unat P \<Longrightarrow> quiet cfg i P (n + count_ticks ops) (fst s1)"
proof (induction ops arbitrary: s n)
  case Nil
  then show ?case by (simp add: count_ticks_def)
next
  case (Cons x ops)
  from Cons.prems(2) obtain s2 where
    a: "apply_op cfg x s = Some s2" and b: "run_ops cfg ops s2 = Some s1"
    by (auto split: option.splits)
  let ?n = "if is_tick x then Suc n else n"
  have c: "count_ticks (x # ops) = (if is_tick x then 1 else 0) + count_ticks ops"
    by (simp add: count_ticks_def)
  from Cons.prems(3) c have t: "is_tick x \<longrightarrow> Suc n < unat P" by auto
  from assms Cons.prems(1) a t have q: "quiet cfg i P ?n (fst s2)" by (rule quiet_apply_op)
  from Cons.prems(3) c have "?n + count_ticks ops < unat P" by auto
  from Cons.IH [OF q b this] c show ?case by (auto split: if_splits)
qed

lemma quiet_after_dispatch:
  assumes "kernel_inv cfg k" and "bit (ready_mask k) i"
  shows "quiet cfg i (period_ticks (tasks k ! i)) 0 (fst (poll_spec cfg k w))"
    and "elapsed_ticks (tasks (fst (poll_spec cfg k w)) ! i) = 0"
proof -
  from assms have i: "i < task_count k" and c: "task_count k \<le> PULSE_MAX_TASKS cfg"
    and len: "length (tasks k) = PULSE_MAX_TASKS cfg"
    by (simp_all add: kernel_inv_def array_ok_def)
  with assms(2) have mem: "i \<in> set (ready_ids cfg (ready_mask k))"
    by (simp add: ready_ids_props)
  from i c len have "i < length (tasks (fst (k, w)))" by simp
  with mem obtain wj where
    t: "tasks (fst (poll_spec cfg k w)) ! i =
          (tasks k ! i)\<lparr>running := 0, state := after_call (tasks k ! i) wj, elapsed_ticks := 0\<rparr>"
    unfolding poll_spec_def
    using fold_dispatch_self [of i "ready_ids cfg (ready_mask k)" "(k, w)"]
    by (auto simp add: ready_ids_props)
  then show "elapsed_ticks (tasks (fst (poll_spec cfg k w)) ! i) = 0" by simp
  from mem have "\<not> bit (ready_mask (fst (poll_spec cfg k w))) i"
    by (simp add: poll_spec_def fold_dispatch_bit)
  moreover have "task_count (fst (poll_spec cfg k w)) = task_count k"
    by (simp add: poll_spec_def)
  moreover from assms(1) have "kernel_inv cfg (fst (poll_spec cfg k w))"
    by (rule kernel_inv_poll_spec)
  ultimately show "quiet cfg i (period_ticks (tasks k ! i)) 0 (fst (poll_spec cfg k w))"
    using t i by (simp add: quiet_def)
qed

lemma tick_isr_funpow_nth:
  assumes "task_count k \<le> length (tasks k)" and "i < task_count k"
  shows "tasks ((pulse_tick_isr cfg ^^ n) k) ! i =
           (tasks k ! i)\<lparr>elapsed_ticks := (next_elapsed cfg ^^ n) (elapsed_ticks (tasks k ! i))\<rparr>"
proof (induction n)
  case 0
  then show ?case by simp
next
  case (Suc n)
  from assms have "tasks (pulse_tick_isr cfg ((pulse_tick_isr cfg ^^ n) k)) ! i =
      (tasks ((pulse_tick_isr cfg ^^ n) k) ! i)\<lparr>elapsed_ticks :=
         next_elapsed cfg (elapsed_ticks (tasks ((pulse_tick_isr cfg ^^ n) k) ! i))\<rparr>"
    by (intro tick_isr_nth) simp_all
  with Suc show ?case by simp
qed

lemma next_elapsed_below_max: "e < 0xFFFFFFFF \<Longrightarrow> next_elapsed cfg e = e + 1"
  by (simp add: next_elapsed_def)

lemma next_elapsed_funpow_zero:
  "n \<le> 4294967295 \<Longrightarrow> unat ((next_elapsed cfg ^^ n) 0) = n"
proof (induction n)
  case 0
  then show ?case by simp
next
  case (Suc n)
  let ?e = "(next_elapsed cfg ^^ n) 0"
  from Suc have e: "unat ?e = n" and n: "n < 4294967295" by simp_all
  then have lt: "?e < 0xFFFFFFFF" by (simp add: word_less_nat_alt)
  from e n have "unat (?e + 1) = Suc n" by (simp add: unat_word_ariths)
  then have "unat (next_elapsed cfg ?e) = Suc n"
    by (simp only: next_elapsed_below_max [OF lt])
  then show ?case by simp
qed

lemma apply_op_Tick: "apply_op cfg Tick s = Some (pulse_tick_isr cfg (fst s), snd s)"
  by (cases s) simp

lemma apply_op_Poll: "apply_op cfg Poll s = pulse_poll cfg (fst s) (snd s)"
  by (cases s) simp

lemma due_after_full_period:
  assumes "cfg_ok cfg" and "kernel_inv cfg k" and "i < task_count k"
    and "running (tasks k ! i) = 0" and "elapsed_ticks (tasks k ! i) = 0"
    and "period_ticks (tasks k ! i) \<noteq> 0"
  shows "bit (ready_mask ((pulse_tick_isr cfg ^^ unat (period_ticks (tasks k ! i))) k)) i"
proof -
  let ?P = "period_ticks (tasks k ! i)"
  from assms(6) obtain m where m: "unat ?P = Suc m"
    by (metis not0_implies_Suc unat_eq_zero)
  have "unat ?P < 2 ^ LENGTH(32)" by (rule unsigned_less)
  with m have m_le: "m \<le> 4294967295" "Suc m \<le> 4294967295" by simp_all
  let ?k = "(pulse_tick_isr cfg ^^ m) k"
  from assms(2) have le: "task_count k \<le> length (tasks k)"
    and cap: "task_count k \<le> PULSE_MAX_TASKS cfg"
    by (simp_all add: kernel_inv_def array_ok_def)
  have t: "tasks ?k ! i = (tasks k ! i)\<lparr>elapsed_ticks := (next_elapsed cfg ^^ m) 0\<rparr>"
    using tick_isr_funpow_nth [OF le assms(3), where cfg = cfg and n = m] assms(5) by simp
  have "unat (next_elapsed cfg ((next_elapsed cfg ^^ m) 0)) = Suc m"
    using next_elapsed_funpow_zero [OF m_le(2), where cfg = cfg] by simp
  with m have "?P \<le> next_elapsed cfg ((next_elapsed cfg ^^ m) 0)"
    by (simp add: word_le_nat_alt)
  moreover from assms(1,3) cap have "i < 64" by (simp add: cfg_ok_def)
  moreover have le': "task_count ?k \<le> length (tasks ?k)" using le by simp
  ultimately have "bit (ready_mask (pulse_tick_isr cfg ?k)) i"
    using assms(3,4) t by (simp add: pulse_tick_isr_def tick_loop_bit [OF le'])
  with m show ?thesis by simp
qed

lemma deferred_cfg_simps [simp]:
  "PULSE_MAX_TASKS deferred_cfg = 8" "PULSE_CFG_NULL_TICK_GUARD deferred_cfg"
  "\<not> PULSE_CFG_RUN_IMMEDIATELY deferred_cfg" "PULSE_CFG_SATURATE_ELAPSED deferred_cfg"
  by (simp_all add: deferred_cfg_def)

lemma cfg_ok_deferred: "cfg_ok deferred_cfg"
  by (simp add: cfg_ok_def)

lemma deferred_init:
  "pulse_init deferred_cfg 1 (pulse_kernel0 deferred_cfg) =
     \<lparr>tasks = replicate 8
                \<lparr>running = 0, state = 0, period_ticks = 0, elapsed_ticks = 0, tick = None\<rparr>,
      task_count = 0, ready_mask = 0, started = 0, tick_ms = 1\<rparr>"
  by (simp only: pulse_init_kernel0) (simp add: pulse_kernel0_def)

lemma add_task_zero_iff:
  "snd (pulse_add_task cfg s period tk k) = 0 \<longleftrightarrow>
     period \<noteq> 0 \<and> (PULSE_CFG_NULL_TICK_GUARD cfg \<longrightarrow> tk \<noteq> None)
       \<and> task_count k < PULSE_MAX_TASKS cfg"
  by (simp add: pulse_add_task_def Let_def)

section \<open>Facts about the two-task test\<close>

lemma task_bit_numerals: "pulse_task_bit 0 = 1" "pulse_task_bit (Suc 0) = 2"
  by (simp_all add: pulse_task_bit_def)

lemma replicate_8:
  "replicate 8 x = x # x # replicate 6 x"
  by (simp add: eval_nat_numeral)

lemma two_tasks_registered:
  "pulse_add_task test_cfg 0 3 (Some task1)
     (fst (pulse_add_task test_cfg 0 2 (Some task0)
        (pulse_init test_cfg 1 (pulse_kernel0 test_cfg)))) = (two_tasks 2 3 3, 0)"
  "snd (pulse_add_task test_cfg 0 2 (Some task0)
        (pulse_init test_cfg 1 (pulse_kernel0 test_cfg))) = 0"
  unfolding test_init replicate_8
  by (simp_all add: pulse_add_task_def Let_def task_bit_numerals two_tasks_def)

lemma tick_loop_two:
  "task_count k = 2 \<Longrightarrow> tick_loop cfg 0 k = tick_body cfg 1 (tick_body cfg 0 k)"
  by (simp add: tick_loop.simps)

lemma two_tasks_tick:
  assumes "e0 < 0xFFFFFFFF" and "e1 < 0xFFFFFFFF"
  shows "pulse_tick_isr test_cfg (two_tasks e0 e1 m) =
     two_tasks (e0 + 1) (e1 + 1)
       ((if 2 \<le> e0 + 1 then m OR 1 else m) OR (if 3 \<le> e1 + 1 then 2 else 0))"
proof -
  have a: "tick_body test_cfg 0 (two_tasks e0 e1 m) =
      two_tasks (e0 + 1) e1 (if 2 \<le> e0 + 1 then m OR 1 else m)"
    using assms by (simp add: tick_body_def Let_def two_tasks_def task_bit_numerals)
  have b: "tick_body test_cfg 1 (two_tasks e0' e1 m') =
      two_tasks e0' (e1 + 1) (m' OR (if 3 \<le> e1 + 1 then 2 else 0))" for e0' m'
    using assms by (simp add: tick_body_def Let_def two_tasks_def task_bit_numerals)
  have c: "task_count (two_tasks e0 e1 m) = 2" by (simp add: two_tasks_def)
  show ?thesis
    unfolding pulse_tick_isr_def tick_loop_two [OF c] a b ..
qed

lemma pulse_poll_guarded:
  "PULSE_CFG_NULL_TICK_GUARD cfg \<Longrightarrow> length (tasks k) = PULSE_MAX_TASKS cfg \<Longrightarrow>
   pulse_poll cfg k w = Some (fold dispatch_spec (ready_ids cfg (ready_mask k)) (k, w))"
  using pulse_poll_spec [of cfg k w] by (simp add: array_ok_def poll_spec_def)

lemma two_tasks_ready_ids:
  "ready_ids test_cfg 0 = []" "ready_ids test_cfg 1 = [0]"
  "ready_ids test_cfg 2 = [1]" "ready_ids test_cfg 3 = [0, 1]"
  by (simp_all add: ready_ids_def upt_rec)

lemma two_tasks_dispatch:
  "dispatch_spec 0 (two_tasks e0 e1 m, w) = (two_tasks 0 e1 (m AND NOT 1), log_exec 0 w)"
  "dispatch_spec (Suc 0) (two_tasks e0 e1 m, w) = (two_tasks e0 0 (m AND NOT 2), log_exec 1 w)"
  by (simp_all add: dispatch_spec_def Let_def two_tasks_def task0_def task1_def task_bit_numerals)

lemma two_tasks_poll:
  "pulse_poll test_cfg (two_tasks e0 e1 0) w = Some (two_tasks e0 e1 0, w)"
  "pulse_poll test_cfg (two_tasks e0 e1 1) w = Some (two_tasks 0 e1 0, log_exec 0 w)"
  "pulse_poll test_cfg (two_tasks e0 e1 2) w = Some (two_tasks e0 0 0, log_exec 1 w)"
  "pulse_poll test_cfg (two_tasks e0 e1 3) w = Some (two_tasks 0 0 0, log_exec 1 (log_exec 0 w))"
proof -
  have len: "length (tasks (two_tasks e0 e1 m)) = PULSE_MAX_TASKS test_cfg" for m
    by (simp add: two_tasks_def)
  have m: "ready_mask (two_tasks e0 e1 m) = m" for m by (simp add: two_tasks_def)
  show "pulse_poll test_cfg (two_tasks e0 e1 0) w = Some (two_tasks e0 e1 0, w)"
    by (simp add: pulse_poll_guarded len m two_tasks_ready_ids)
  show "pulse_poll test_cfg (two_tasks e0 e1 1) w = Some (two_tasks 0 e1 0, log_exec 0 w)"
    by (simp add: pulse_poll_guarded len m two_tasks_ready_ids two_tasks_dispatch)
  show "pulse_poll test_cfg (two_tasks e0 e1 2) w = Some (two_tasks e0 0 0, log_exec 1 w)"
    by (simp add: pulse_poll_guarded len m two_tasks_ready_ids two_tasks_dispatch)
  show "pulse_poll test_cfg (two_tasks e0 e1 3) w
      = Some (two_tasks 0 0 0, log_exec 1 (log_exec 0 w))"
    by (simp add: pulse_poll_guarded len m two_tasks_ready_ids two_tasks_dispatch)
qed

text \<open>One iteration of \<open>drive_ticks\<close>, and its end.\<close>

lemma drive_loop_step:
  "i < n \<Longrightarrow> j = i + 1 \<Longrightarrow>
   pulse_poll cfg (pulse_tick_isr cfg k) (w\<lparr>g_now_tick := of_nat j\<rparr>) = Some (k1, w1) \<Longrightarrow>
   drive_loop cfg n i k w = drive_loop cfg n j k1 w1"
  by (subst drive_loop.simps) simp

lemma drive_loop_done: "drive_loop cfg n n k w = Some (k, w)"
  by (subst drive_loop.simps) simp

section \<open>Facts about the dispatcher with timer interrupts\<close>





section \<open>Facts about the build without the null guard\<close>

lemma noguard_cfg_simps [simp]:
  "PULSE_MAX_TASKS noguard_cfg = 8" "\<not> PULSE_CFG_NULL_TICK_GUARD noguard_cfg"
  "PULSE_CFG_RUN_IMMEDIATELY noguard_cfg" "PULSE_CFG_SATURATE_ELAPSED noguard_cfg"
  by (simp_all add: noguard_cfg_def)




section \<open>Facts about a tick inside a pass of the two-task test\<close>



section \<open>Initialisation: the tick period and the cleared kernel\<close>

text \<open>
  Claim C9.  For every argument \<open>t\<close>, \<open>pulse_init\<close> sets the registered task count, the
  ready mask and the started flag to zero and stores \<open>max t 1\<close> as the tick period in
  milliseconds, so that \<open>pulse_tick_period_ms\<close> then returns \<open>max t 1\<close>; in particular
  \<open>pulse_init(0)\<close> stores 1.
\<close>

theorem pulse_init_resets:
  "task_count (pulse_init cfg t k) = 0 \<and>
   ready_mask (pulse_init cfg t k) = 0 \<and>
   started (pulse_init cfg t k) = 0 \<and>
   pulse_is_started (pulse_init cfg t k) = 0 \<and>
   tick_ms (pulse_init cfg t k) = max t 1 \<and>
   pulse_tick_period_ms (pulse_init cfg t k) = max t 1 \<and>
   pulse_tick_period_ms (pulse_init cfg 0 k) = 1"
proof -
  have m: "max t 1 = (if t = 0 then 1 else t)"
  proof (cases "t = 0")
    case True
    then show ?thesis by (simp add: max_def)
  next
    case False
    then have "1 \<le> t" by (simp add: word_le_nat_alt unat_eq_zero Suc_le_eq unat_gt_0)
    with False show ?thesis by (simp add: max_def)
  qed
  show ?thesis
    by (simp add: pulse_init_def pulse_tick_period_ms_def pulse_is_started_def Let_def m)
qed

section \<open>Registration: results and refusals\<close>

text \<open>
  Claim C1, as the code has it.  A successful \<open>pulse_add_task\<close> (a period that is not
  zero, a function that is not null when the null guard is on, a registry that is not
  full) returns 0, whatever the index; the new descriptor is stored at the index equal to
  the task count before the call, the descriptors below it are untouched, and the count
  grows by one.
\<close>

theorem add_task_returns_zero:
  assumes "cfg_ok cfg" and "array_ok cfg k"
    and "period \<noteq> 0" and "PULSE_CFG_NULL_TICK_GUARD cfg \<longrightarrow> tk \<noteq> None"
    and "task_count k < PULSE_MAX_TASKS cfg"
  shows "snd (pulse_add_task cfg s period tk k) = 0 \<and>
         task_count (fst (pulse_add_task cfg s period tk k)) = task_count k + 1 \<and>
         tasks (fst (pulse_add_task cfg s period tk k)) ! task_count k =
           \<lparr>running = 0, state = s, period_ticks = period,
            elapsed_ticks = (if PULSE_CFG_RUN_IMMEDIATELY cfg then period else 0),
            tick = tk\<rparr> \<and>
         (\<forall>j<task_count k.
            tasks (fst (pulse_add_task cfg s period tk k)) ! j = tasks k ! j)"
proof -
  from assms(1,5) have "task_count k + 1 < 256" by (simp add: cfg_ok_def)
  moreover from assms(2,5) have "task_count k < length (tasks k)" by (simp add: array_ok_def)
  ultimately show ?thesis
    using assms(3,4,5)
    by (cases "tasks k ! task_count k") (simp add: add_task_success)
qed

theorem add_task_returns_zero_witness:
  "snd (pulse_add_task test_cfg 0 5 (Some task1)
          (fst (pulse_add_task test_cfg 0 5 (Some task0)
                  (pulse_init test_cfg 1 (pulse_kernel0 test_cfg))))) = 0
   \<and> task_count (fst (pulse_add_task test_cfg 0 5 (Some task1)
          (fst (pulse_add_task test_cfg 0 5 (Some task0)
                  (pulse_init test_cfg 1 (pulse_kernel0 test_cfg)))))) = 2"
proof -
  let ?k1 = "fst (pulse_add_task test_cfg 0 5 (Some task0)
                    (pulse_init test_cfg 1 (pulse_kernel0 test_cfg)))"
  have g: "PULSE_CFG_NULL_TICK_GUARD test_cfg \<longrightarrow> Some task1 \<noteq> None" by simp
  have p: "(5 :: 32 word) \<noteq> 0" by simp
  have c1: "task_count ?k1 = 1"
    unfolding test_init by (simp add: pulse_add_task_def Let_def)
  have a1: "array_ok test_cfg ?k1"
    unfolding test_init by (simp add: pulse_add_task_def Let_def array_ok_def)
  have n1: "task_count ?k1 < PULSE_MAX_TASKS test_cfg"
    by (simp add: c1)
  from add_task_returns_zero [OF cfg_ok_test(1) a1 p g n1, of 0] c1 show ?thesis by simp
qed

text \<open>
  The claim as stated fails: the second registration of
  \<open>test_same_tick_priority_order\<close> gets index 1 and returns 0, as the test asserts.
\<close>

theorem add_task_result_is_not_index:
  "task_count (fst (pulse_add_task test_cfg 0 5 (Some task0)
                      (pulse_init test_cfg 1 (pulse_kernel0 test_cfg)))) = 1 \<and>
   snd (pulse_add_task test_cfg 0 5 (Some task1)
          (fst (pulse_add_task test_cfg 0 5 (Some task0)
                  (pulse_init test_cfg 1 (pulse_kernel0 test_cfg))))) \<noteq>
   int (task_count (fst (pulse_add_task test_cfg 0 5 (Some task0)
                      (pulse_init test_cfg 1 (pulse_kernel0 test_cfg)))))"
  unfolding test_init by (simp add: pulse_add_task_def Let_def)

text \<open>
  Claim C4.  In every kernel state \<open>pulse_add_task\<close> fails with \<open>InvalidPeriod\<close> when
  the period is zero, otherwise with \<open>NullFunction\<close> when the function is null and the
  null guard is on, otherwise with \<open>CapacityExceeded\<close> when the task count has reached
  the capacity, and otherwise succeeds with 0.  The three error results are pairwise
  distinct and distinct from the success result, and a failure returns the kernel as it
  was: the count and all descriptors are unchanged.
\<close>

theorem add_task_refusals:
  "(period = 0 \<longrightarrow> pulse_add_task cfg s period tk k = (k, InvalidPeriod)) \<and>
   (period \<noteq> 0 \<and> PULSE_CFG_NULL_TICK_GUARD cfg \<and> tk = None \<longrightarrow>
      pulse_add_task cfg s period tk k = (k, NullFunction)) \<and>
   (period \<noteq> 0 \<and> \<not> (PULSE_CFG_NULL_TICK_GUARD cfg \<and> tk = None)
      \<and> PULSE_MAX_TASKS cfg \<le> task_count k \<longrightarrow>
      pulse_add_task cfg s period tk k = (k, CapacityExceeded)) \<and>
   (period \<noteq> 0 \<and> \<not> (PULSE_CFG_NULL_TICK_GUARD cfg \<and> tk = None)
      \<and> task_count k < PULSE_MAX_TASKS cfg \<longrightarrow>
      snd (pulse_add_task cfg s period tk k) = 0) \<and>
   (snd (pulse_add_task cfg s period tk k) \<noteq> 0 \<longrightarrow>
      fst (pulse_add_task cfg s period tk k) = k) \<and>
   distinct [InvalidPeriod, NullFunction, CapacityExceeded, 0]"
  by (simp add: pulse_add_task_def Let_def InvalidPeriod_def NullFunction_def
      CapacityExceeded_def)

theorem add_task_refusals_witness:
  "pulse_add_task test_cfg 7 0 (Some task0) (pulse_init test_cfg 1 (pulse_kernel0 test_cfg))
     = (pulse_init test_cfg 1 (pulse_kernel0 test_cfg), InvalidPeriod) \<and>
   pulse_add_task test_cfg 7 0 (None :: test_world pulse_tick_f option)
       (pulse_init test_cfg 1 (pulse_kernel0 test_cfg))
     = (pulse_init test_cfg 1 (pulse_kernel0 test_cfg), InvalidPeriod) \<and>
   pulse_add_task test_cfg 7 3 (None :: test_world pulse_tick_f option)
       (pulse_init test_cfg 1 (pulse_kernel0 test_cfg))
     = (pulse_init test_cfg 1 (pulse_kernel0 test_cfg), NullFunction) \<and>
   pulse_add_task test_cfg 7 3 (Some task0)
       ((pulse_init test_cfg 1 (pulse_kernel0 test_cfg))\<lparr>task_count := 8\<rparr>)
     = ((pulse_init test_cfg 1 (pulse_kernel0 test_cfg))\<lparr>task_count := 8\<rparr>, CapacityExceeded) \<and>
   snd (pulse_add_task test_cfg 7 3 (Some task0) (pulse_init test_cfg 1 (pulse_kernel0 test_cfg)))
     = 0"
proof -
  let ?k0 = "pulse_init test_cfg 1 (pulse_kernel0 test_cfg) :: test_world pulse_kernel_t"
  have c0: "task_count ?k0 = 0" unfolding test_init by simp
  have "pulse_add_task test_cfg 7 0 (Some task0) ?k0 = (?k0, InvalidPeriod)"
    using add_task_refusals [of 0 test_cfg 7 "Some task0" ?k0] by simp
  moreover have "pulse_add_task test_cfg 7 0 None ?k0 = (?k0, InvalidPeriod)"
    using add_task_refusals [of 0 test_cfg 7 None ?k0] by simp
  moreover have "pulse_add_task test_cfg 7 3 None ?k0 = (?k0, NullFunction)"
    using add_task_refusals [of 3 test_cfg 7 None ?k0] by simp
  moreover have "pulse_add_task test_cfg 7 3 (Some task0) (?k0\<lparr>task_count := 8\<rparr>)
      = (?k0\<lparr>task_count := 8\<rparr>, CapacityExceeded)"
    using add_task_refusals [of 3 test_cfg 7 "Some task0" "?k0\<lparr>task_count := 8\<rparr>"] by simp
  moreover have "snd (pulse_add_task test_cfg 7 3 (Some task0) ?k0) = 0"
    using add_task_refusals [of 3 test_cfg 7 "Some task0" ?k0] c0 by simp
  ultimately show ?thesis by (intro conjI)
qed

section \<open>Invariants of the ready mask\<close>

text \<open>
  Claim C10.  In every kernel state reachable from an initialised state by
  \<open>pulse_add_task\<close>, \<open>pulse_tick_isr\<close> and \<open>pulse_poll\<close>, every set bit of the ready
  mask has an index below the registered task count: no bit is set for an unregistered
  slot.
\<close>

theorem ready_bits_are_registered:
  assumes "cfg_ok cfg" and "reachable cfg (k, w)" and "bit (ready_mask k) i"
  shows "i < task_count k"
proof -
  from assms(2,1) have "kernel_inv cfg (fst (k, w))" by (rule reachable_inv)
  with assms(3) show ?thesis by (simp add: kernel_inv_def)
qed

theorem ready_bits_are_registered_witness:
  "reachable test_cfg
     (fst (pulse_add_task test_cfg 0 2 (Some task0) (pulse_init test_cfg 1 (pulse_kernel0 test_cfg))),
      world0) \<and>
   bit (ready_mask (fst (pulse_add_task test_cfg 0 2 (Some task0)
          (pulse_init test_cfg 1 (pulse_kernel0 test_cfg))))) 0 \<and>
   0 < task_count (fst (pulse_add_task test_cfg 0 2 (Some task0)
          (pulse_init test_cfg 1 (pulse_kernel0 test_cfg))))"
proof -
  let ?k0 = "pulse_init test_cfg 1 (pulse_kernel0 test_cfg) :: test_world pulse_kernel_t"
  let ?k1 = "fst (pulse_add_task test_cfg 0 2 (Some task0) ?k0)"
  have "run_ops test_cfg [Register 0 2 (Some task0)] (?k0, world0) = Some (?k1, world0)"
    by simp
  with reachable_kernel0 have r: "reachable test_cfg (?k1, world0)"
    by (rule reachable_run_ops)
  have b: "bit (ready_mask ?k1) 0"
    unfolding test_init by (simp add: pulse_add_task_def Let_def bit_or_iff bit_task_bit)
  from r b ready_bits_are_registered [OF cfg_ok_test(1) r b] show ?thesis
    by (intro conjI)
qed

text \<open>
  Claim C3, as the code has it.  In every reachable kernel state a set bit of the ready
  mask belongs to a task whose running flag is 0; and in a build with the saturating
  policy its elapsed counter is at least its period.
\<close>

theorem ready_bit_means_due:
  assumes "cfg_ok cfg" and "reachable cfg (k, w)" and "bit (ready_mask k) i"
  shows "running (tasks k ! i) = 0 \<and>
         (PULSE_CFG_SATURATE_ELAPSED cfg \<longrightarrow>
            period_ticks (tasks k ! i) \<le> elapsed_ticks (tasks k ! i))"
proof -
  from assms(2,1) have "kernel_inv cfg (fst (k, w))" by (rule reachable_inv)
  with assms(3) show ?thesis by (simp add: kernel_inv_def)
qed

theorem ready_bit_means_due_witness:
  "reachable test_cfg
     (fst (pulse_add_task test_cfg 0 2 (Some task0) (pulse_init test_cfg 1 (pulse_kernel0 test_cfg))),
      world0) \<and>
   bit (ready_mask (fst (pulse_add_task test_cfg 0 2 (Some task0)
          (pulse_init test_cfg 1 (pulse_kernel0 test_cfg))))) 0 \<and>
   running (tasks (fst (pulse_add_task test_cfg 0 2 (Some task0)
          (pulse_init test_cfg 1 (pulse_kernel0 test_cfg)))) ! 0) = 0 \<and>
   period_ticks (tasks (fst (pulse_add_task test_cfg 0 2 (Some task0)
          (pulse_init test_cfg 1 (pulse_kernel0 test_cfg)))) ! 0)
     \<le> elapsed_ticks (tasks (fst (pulse_add_task test_cfg 0 2 (Some task0)
          (pulse_init test_cfg 1 (pulse_kernel0 test_cfg)))) ! 0)"
proof -
  let ?k0 = "pulse_init test_cfg 1 (pulse_kernel0 test_cfg) :: test_world pulse_kernel_t"
  let ?k1 = "fst (pulse_add_task test_cfg 0 2 (Some task0) ?k0)"
  have "run_ops test_cfg [Register 0 2 (Some task0)] (?k0, world0) = Some (?k1, world0)"
    by simp
  with reachable_kernel0 have r: "reachable test_cfg (?k1, world0)"
    by (rule reachable_run_ops)
  have b: "bit (ready_mask ?k1) 0"
    unfolding test_init by (simp add: pulse_add_task_def Let_def bit_or_iff bit_task_bit)
  from ready_bit_means_due [OF cfg_ok_test(1) r b] have
    "running (tasks ?k1 ! 0) = 0 \<and> period_ticks (tasks ?k1 ! 0) \<le> elapsed_ticks (tasks ?k1 ! 0)"
    by simp
  with r b show ?thesis by (intro conjI) simp_all
qed

text \<open>
  The claim as stated fails in a build with the wrapping policy: a task registered with
  period \<open>0xFFFFFFFF\<close> is ready at once with its counter at the period; one tick wraps
  the counter to 0 and the bit stays set.
\<close>

theorem ready_bit_after_wrap:
  "reachable wrap_cfg
     (pulse_tick_isr wrap_cfg
        (fst (pulse_add_task wrap_cfg 0 0xFFFFFFFF (Some task0)
                (pulse_init wrap_cfg 1 (pulse_kernel0 wrap_cfg)))), world0) \<and>
   bit (ready_mask (pulse_tick_isr wrap_cfg
        (fst (pulse_add_task wrap_cfg 0 0xFFFFFFFF (Some task0)
                (pulse_init wrap_cfg 1 (pulse_kernel0 wrap_cfg)))))) 0 \<and>
   elapsed_ticks (tasks (pulse_tick_isr wrap_cfg
        (fst (pulse_add_task wrap_cfg 0 0xFFFFFFFF (Some task0)
                (pulse_init wrap_cfg 1 (pulse_kernel0 wrap_cfg))))) ! 0) = 0 \<and>
   period_ticks (tasks (pulse_tick_isr wrap_cfg
        (fst (pulse_add_task wrap_cfg 0 0xFFFFFFFF (Some task0)
                (pulse_init wrap_cfg 1 (pulse_kernel0 wrap_cfg))))) ! 0) = 0xFFFFFFFF \<and>
   \<not> period_ticks (tasks (pulse_tick_isr wrap_cfg
        (fst (pulse_add_task wrap_cfg 0 0xFFFFFFFF (Some task0)
                (pulse_init wrap_cfg 1 (pulse_kernel0 wrap_cfg))))) ! 0)
     \<le> elapsed_ticks (tasks (pulse_tick_isr wrap_cfg
        (fst (pulse_add_task wrap_cfg 0 0xFFFFFFFF (Some task0)
                (pulse_init wrap_cfg 1 (pulse_kernel0 wrap_cfg))))) ! 0)"
proof -
  let ?k0 = "pulse_init wrap_cfg 1 (pulse_kernel0 wrap_cfg) :: test_world pulse_kernel_t"
  let ?k1 = "fst (pulse_add_task wrap_cfg 0 0xFFFFFFFF (Some task0) ?k0)"
  let ?k2 = "pulse_tick_isr wrap_cfg ?k1"
  have "run_ops wrap_cfg [Register 0 0xFFFFFFFF (Some task0), Tick] (?k0, world0)
      = Some (?k2, world0)"
    by simp
  with reachable_kernel0 have r: "reachable wrap_cfg (?k2, world0)"
    by (rule reachable_run_ops)
  have k1: "?k1 = \<lparr>tasks = (replicate 8
                \<lparr>running = 0, state = 0, period_ticks = 0, elapsed_ticks = 0, tick = None\<rparr>)
                [0 := \<lparr>running = 0, state = 0, period_ticks = 0xFFFFFFFF,
                        elapsed_ticks = 0xFFFFFFFF, tick = Some task0\<rparr>],
      task_count = 1, ready_mask = 0 OR pulse_task_bit 0, started = 0, tick_ms = 1\<rparr>"
    unfolding wrap_init by (simp add: pulse_add_task_def Let_def)
  have le: "task_count ?k1 \<le> length (tasks ?k1)" unfolding k1 by simp
  have b: "bit (ready_mask ?k2) 0"
    unfolding pulse_tick_isr_def tick_loop_bit [OF le]
    unfolding k1 by (simp add: bit_or_iff bit_task_bit)
  have e: "elapsed_ticks (tasks ?k2 ! 0) = 0"
    unfolding pulse_tick_isr_def tick_loop_nth [OF le]
    unfolding k1 by (simp add: next_elapsed_def)
  have p: "period_ticks (tasks ?k2 ! 0) = 0xFFFFFFFF"
    unfolding pulse_tick_isr_def tick_loop_nth [OF le]
    unfolding k1 by simp
  have n: "\<not> period_ticks (tasks ?k2 ! 0) \<le> elapsed_ticks (tasks ?k2 ! 0)"
    unfolding e p by simp
  from r b e p n show ?thesis by (intro conjI)
qed

section \<open>The elapsed counter under ticks\<close>

text \<open>
  Claim C8, as the code has it.  For a registered task \<open>i\<close>: in a build with the
  saturating policy a tick never decreases the elapsed counter, and after \<open>n\<close> ticks
  without a dispatch the counter is its old value plus \<open>n\<close>, clamped at \<open>0xFFFFFFFF\<close>
  (so once at the maximum it stays there).  In a build with the wrapping policy a tick
  adds one modulo \<open>2^32\<close>: the counter grows except at \<open>0xFFFFFFFF\<close>, where it wraps
  to 0.
\<close>

theorem tick_elapsed_counter:
  assumes "array_ok cfg k" and "task_count k \<le> PULSE_MAX_TASKS cfg" and "i < task_count k"
  shows "(PULSE_CFG_SATURATE_ELAPSED cfg \<longrightarrow>
            elapsed_ticks (tasks k ! i) \<le> elapsed_ticks (tasks (pulse_tick_isr cfg k) ! i) \<and>
            (\<forall>n. unat (elapsed_ticks (tasks ((pulse_tick_isr cfg ^^ n) k) ! i)) =
                   min (unat (elapsed_ticks (tasks k ! i)) + n) 4294967295) \<and>
            (elapsed_ticks (tasks k ! i) = 0xFFFFFFFF \<longrightarrow>
               (\<forall>n. elapsed_ticks (tasks ((pulse_tick_isr cfg ^^ n) k) ! i) = 0xFFFFFFFF))) \<and>
         (\<not> PULSE_CFG_SATURATE_ELAPSED cfg \<longrightarrow>
            elapsed_ticks (tasks (pulse_tick_isr cfg k) ! i) = elapsed_ticks (tasks k ! i) + 1) \<and>
         (elapsed_ticks (tasks k ! i) \<noteq> 0xFFFFFFFF \<longrightarrow>
            elapsed_ticks (tasks k ! i) < elapsed_ticks (tasks (pulse_tick_isr cfg k) ! i))"
proof -
  let ?e = "elapsed_ticks (tasks k ! i)"
  from assms(1,2) have le: "task_count k \<le> length (tasks k)" by (simp add: array_ok_def)
  have one: "elapsed_ticks (tasks (pulse_tick_isr cfg k) ! i) = next_elapsed cfg ?e"
    using le assms(3) by (simp add: tick_isr_nth)
  have sat1: "PULSE_CFG_SATURATE_ELAPSED cfg \<Longrightarrow> ?e \<le> next_elapsed cfg ?e"
    by (rule next_elapsed_saturating)
  have satn: "PULSE_CFG_SATURATE_ELAPSED cfg \<Longrightarrow>
      unat (elapsed_ticks (tasks ((pulse_tick_isr cfg ^^ n) k) ! i)) = min (unat ?e + n) 4294967295"
    for n by (rule tick_isr_funpow_elapsed [OF _ le assms(3)])
  have top: "elapsed_ticks (tasks ((pulse_tick_isr cfg ^^ n) k) ! i) = 0xFFFFFFFF"
    if s: "PULSE_CFG_SATURATE_ELAPSED cfg" and m: "?e = 0xFFFFFFFF" for n
  proof -
    from satn [OF s, of n] m
    have "unat (elapsed_ticks (tasks ((pulse_tick_isr cfg ^^ n) k) ! i)) = unat (0xFFFFFFFF :: 32 word)"
      by simp
    then show ?thesis by (simp only: word_unat_eq_iff)
  qed
  have wrap: "\<not> PULSE_CFG_SATURATE_ELAPSED cfg \<Longrightarrow> next_elapsed cfg ?e = ?e + 1"
    by (simp add: next_elapsed_def)
  have grow: "?e < next_elapsed cfg ?e" if ne: "?e \<noteq> 0xFFFFFFFF"
  proof -
    have "unat ?e < 2 ^ LENGTH(32)" by (rule unsigned_less)
    then have "unat ?e < 4294967296" by simp
    moreover from ne have "unat ?e \<noteq> unat (0xFFFFFFFF :: 32 word)"
      by (simp only: word_unat_eq_iff not_False_eq_True)
    then have "unat ?e \<noteq> 4294967295" by simp
    ultimately have lt: "unat ?e < 4294967295" by simp
    then have a: "unat (?e + 1) = unat ?e + 1" by (simp add: unat_word_ariths)
    from lt have b: "?e < 0xFFFFFFFF" by (simp add: word_less_nat_alt)
    from a b show ?thesis by (simp add: next_elapsed_def word_less_nat_alt)
  qed
  show ?thesis
    unfolding one using sat1 satn top wrap grow by blast
qed

theorem tick_elapsed_counter_witness:
  "elapsed_ticks (tasks (fst (pulse_add_task test_cfg 0 2 (Some task0)
      (pulse_init test_cfg 1 (pulse_kernel0 test_cfg)))) ! 0) = 2 \<and>
   elapsed_ticks (tasks (fst (pulse_add_task test_cfg 0 2 (Some task0)
      (pulse_init test_cfg 1 (pulse_kernel0 test_cfg)))) ! 0)
     \<le> elapsed_ticks (tasks (pulse_tick_isr test_cfg (fst (pulse_add_task test_cfg 0 2 (Some task0)
      (pulse_init test_cfg 1 (pulse_kernel0 test_cfg))))) ! 0) \<and>
   unat (elapsed_ticks (tasks ((pulse_tick_isr test_cfg ^^ 3) (fst (pulse_add_task test_cfg 0 2
      (Some task0) (pulse_init test_cfg 1 (pulse_kernel0 test_cfg))))) ! 0)) = 5"
proof -
  let ?k1 = "fst (pulse_add_task test_cfg 0 2 (Some task0)
      (pulse_init test_cfg 1 (pulse_kernel0 test_cfg)))"
  have a: "array_ok test_cfg ?k1" unfolding test_registered by (simp add: array_ok_def)
  have c: "task_count ?k1 \<le> PULSE_MAX_TASKS test_cfg" unfolding test_registered by simp
  have i: "0 < task_count ?k1" unfolding test_registered by simp
  have e: "elapsed_ticks (tasks ?k1 ! 0) = 2" unfolding test_registered by simp
  from tick_elapsed_counter [OF a c i] e show ?thesis by simp
qed

text \<open>
  The claim as stated (a tick never decreases the counter, whatever the policy) fails in
  a build with the wrapping policy: the counter of a task at \<open>0xFFFFFFFF\<close> is 0 after
  the next tick.
\<close>

theorem tick_wraps_elapsed:
  "0 < task_count (fst (pulse_add_task wrap_cfg 0 0xFFFFFFFF (Some task0)
      (pulse_init wrap_cfg 1 (pulse_kernel0 wrap_cfg)))) \<and>
   elapsed_ticks (tasks (fst (pulse_add_task wrap_cfg 0 0xFFFFFFFF (Some task0)
      (pulse_init wrap_cfg 1 (pulse_kernel0 wrap_cfg)))) ! 0) = 0xFFFFFFFF \<and>
   elapsed_ticks (tasks (pulse_tick_isr wrap_cfg (fst (pulse_add_task wrap_cfg 0 0xFFFFFFFF
      (Some task0) (pulse_init wrap_cfg 1 (pulse_kernel0 wrap_cfg))))) ! 0) = 0 \<and>
   elapsed_ticks (tasks (pulse_tick_isr wrap_cfg (fst (pulse_add_task wrap_cfg 0 0xFFFFFFFF
      (Some task0) (pulse_init wrap_cfg 1 (pulse_kernel0 wrap_cfg))))) ! 0)
     < elapsed_ticks (tasks (fst (pulse_add_task wrap_cfg 0 0xFFFFFFFF (Some task0)
      (pulse_init wrap_cfg 1 (pulse_kernel0 wrap_cfg)))) ! 0)"
proof -
  let ?k1 = "fst (pulse_add_task wrap_cfg 0 0xFFFFFFFF (Some task0)
      (pulse_init wrap_cfg 1 (pulse_kernel0 wrap_cfg)))"
  have le: "task_count ?k1 \<le> length (tasks ?k1)" unfolding wrap_registered by simp
  have i: "0 < task_count ?k1" unfolding wrap_registered by simp
  have e: "elapsed_ticks (tasks ?k1 ! 0) = 0xFFFFFFFF" unfolding wrap_registered by simp
  have e1: "elapsed_ticks (tasks (pulse_tick_isr wrap_cfg ?k1) ! 0) = 0"
    unfolding tick_isr_nth [OF le i] e by (simp add: next_elapsed_def)
  from i e e1 show ?thesis by simp
qed

section \<open>Readiness and the period\<close>

text \<open>
  Claim C6.  Let task \<open>i\<close>, registered with period \<open>P\<close>, be dispatched by a
  \<open>pulse_poll\<close> (its bit was set when the poll began).  The dispatch resets its elapsed
  counter to zero and clears its bit, and the bit is not set again by any operations that
  follow while fewer than \<open>P\<close> calls of \<open>pulse_tick_isr\<close> have occurred after that
  dispatch.
\<close>

theorem not_ready_before_period:
  assumes "cfg_ok cfg" and "reachable cfg (k, w)" and "bit (ready_mask k) i"
    and "pulse_poll cfg k w = Some (k1, w1)"
    and "run_ops cfg ops (k1, w1) = Some (k2, w2)"
    and "count_ticks ops < unat (period_ticks (tasks k ! i))"
  shows "elapsed_ticks (tasks k1 ! i) = 0 \<and> \<not> bit (ready_mask k1) i \<and>
         period_ticks (tasks k2 ! i) = period_ticks (tasks k ! i) \<and>
         \<not> bit (ready_mask k2) i"
proof -
  let ?P = "period_ticks (tasks k ! i)"
  from assms(2,1) have inv: "kernel_inv cfg k"
    using reachable_inv by fastforce
  then have "array_ok cfg k" by (simp add: kernel_inv_def)
  from pulse_poll_Some_spec [OF this assms(4)] have s1: "(k1, w1) = poll_spec cfg k w" .
  then have k1: "k1 = fst (poll_spec cfg k w)" by (metis fst_conv)
  from inv assms(3) have q: "quiet cfg i ?P 0 (fst (k1, w1))"
    and e: "elapsed_ticks (tasks k1 ! i) = 0"
    unfolding k1 by (simp_all add: quiet_after_dispatch)
  from assms(6) have "0 + count_ticks ops < unat ?P" by simp
  from quiet_run_ops [OF assms(1) q assms(5) this]
  have "quiet cfg i ?P (0 + count_ticks ops) k2" by simp
  with q e show ?thesis by (simp add: quiet_def)
qed

theorem not_ready_before_period_witness:
  "pulse_poll test_cfg
     (fst (pulse_add_task test_cfg 0 2 (Some task0) (pulse_init test_cfg 1 (pulse_kernel0 test_cfg))))
     world0
   = Some (poll_spec test_cfg
     (fst (pulse_add_task test_cfg 0 2 (Some task0) (pulse_init test_cfg 1 (pulse_kernel0 test_cfg))))
     world0) \<and>
   bit (ready_mask (fst (pulse_add_task test_cfg 0 2 (Some task0)
       (pulse_init test_cfg 1 (pulse_kernel0 test_cfg))))) 0 \<and>
   \<not> bit (ready_mask (pulse_tick_isr test_cfg (fst (poll_spec test_cfg
     (fst (pulse_add_task test_cfg 0 2 (Some task0) (pulse_init test_cfg 1 (pulse_kernel0 test_cfg))))
     world0)))) 0"
proof -
  let ?k0 = "pulse_init test_cfg 1 (pulse_kernel0 test_cfg) :: test_world pulse_kernel_t"
  let ?k1 = "fst (pulse_add_task test_cfg 0 2 (Some task0) ?k0)"
  let ?s2 = "poll_spec test_cfg ?k1 world0"
  have "run_ops test_cfg [Register 0 2 (Some task0)] (?k0, world0) = Some (?k1, world0)"
    by simp
  with reachable_kernel0 have r: "reachable test_cfg (?k1, world0)"
    by (rule reachable_run_ops)
  have b: "bit (ready_mask ?k1) 0"
    unfolding test_registered by (simp add: bit_or_iff bit_task_bit)
  have a: "array_ok test_cfg ?k1" unfolding test_registered by (simp add: array_ok_def)
  have p: "pulse_poll test_cfg ?k1 world0 = Some (fst ?s2, snd ?s2)"
    using pulse_poll_spec [OF a, of world0] by simp
  have t: "run_ops test_cfg [Tick] (fst ?s2, snd ?s2)
      = Some (pulse_tick_isr test_cfg (fst ?s2), snd ?s2)"
    by (simp add: apply_op_Tick)
  have c: "count_ticks ([Tick] :: test_world pulse_op list) < unat (period_ticks (tasks ?k1 ! 0))"
    unfolding test_registered by (simp add: count_ticks_def)
  from not_ready_before_period [OF cfg_ok_test(1) r b p t c] p b show ?thesis by simp
qed

text \<open>
  Claim C7.  A task registered successfully under the immediate-ready policy has its
  elapsed counter initialised to its period and its bit set at registration, before any
  tick.  A task registered under the deferred policy has its elapsed counter initialised
  to zero and its bit clear; the bit is not set by any operations with fewer ticks than
  the period, and it is set once a full period of ticks has been bookkept.
\<close>

theorem first_release_policy:
  assumes "cfg_ok cfg" and "reachable cfg (k, w)"
    and "snd (pulse_add_task cfg s P tk k) = 0"
  shows "(PULSE_CFG_RUN_IMMEDIATELY cfg \<longrightarrow>
            elapsed_ticks (tasks (fst (pulse_add_task cfg s P tk k)) ! task_count k) = P \<and>
            bit (ready_mask (fst (pulse_add_task cfg s P tk k))) (task_count k)) \<and>
         (\<not> PULSE_CFG_RUN_IMMEDIATELY cfg \<longrightarrow>
            elapsed_ticks (tasks (fst (pulse_add_task cfg s P tk k)) ! task_count k) = 0 \<and>
            \<not> bit (ready_mask (fst (pulse_add_task cfg s P tk k))) (task_count k) \<and>
            (\<forall>ops w1 k2 w2.
               run_ops cfg ops (fst (pulse_add_task cfg s P tk k), w1) = Some (k2, w2) \<longrightarrow>
               count_ticks ops < unat P \<longrightarrow> \<not> bit (ready_mask k2) (task_count k)) \<and>
            bit (ready_mask ((pulse_tick_isr cfg ^^ unat P) (fst (pulse_add_task cfg s P tk k))))
              (task_count k))"
proof -
  let ?k1 = "fst (pulse_add_task cfg s P tk k)"
  let ?i = "task_count k"
  from assms(3) have ok: "P \<noteq> 0" "PULSE_CFG_NULL_TICK_GUARD cfg \<longrightarrow> tk \<noteq> None"
    "task_count k < PULSE_MAX_TASKS cfg"
    by (simp_all add: add_task_zero_iff)
  from assms(2,1) have inv: "kernel_inv cfg k" using reachable_inv by fastforce
  then have inv1: "kernel_inv cfg ?k1" using assms(1) by (simp add: kernel_inv_add_task)
  from inv ok(3) have len: "?i < length (tasks k)" by (simp add: kernel_inv_def array_ok_def)
  from assms(1) ok(3) have small: "?i + 1 < 256" "?i < 64" by (simp_all add: cfg_ok_def)
  from inv have nb: "\<not> bit (ready_mask k) ?i" by (auto simp add: kernel_inv_def)
  have cnt: "task_count ?k1 = ?i + 1" using small by (simp add: add_task_success [OF ok])
  have t: "tasks ?k1 ! ?i = (tasks k ! ?i)\<lparr>running := 0, state := s, period_ticks := P,
      elapsed_ticks := (if PULSE_CFG_RUN_IMMEDIATELY cfg then P else 0), tick := tk\<rparr>"
    using len by (simp add: add_task_success [OF ok])
  have m: "ready_mask ?k1 = (if PULSE_CFG_RUN_IMMEDIATELY cfg
      then ready_mask k OR pulse_task_bit ?i else ready_mask k)"
    by (simp add: add_task_success [OF ok])
  have imm: "elapsed_ticks (tasks ?k1 ! ?i) = P \<and> bit (ready_mask ?k1) ?i"
    if "PULSE_CFG_RUN_IMMEDIATELY cfg"
    using that t m small by (simp add: bit_or_iff bit_task_bit)
  have def0: "elapsed_ticks (tasks ?k1 ! ?i) = 0 \<and> \<not> bit (ready_mask ?k1) ?i"
    if "\<not> PULSE_CFG_RUN_IMMEDIATELY cfg"
    using that t m nb by simp
  have q: "quiet cfg ?i P 0 ?k1" if "\<not> PULSE_CFG_RUN_IMMEDIATELY cfg"
    using that inv1 cnt t m nb by (simp add: quiet_def)
  have safe: "\<not> bit (ready_mask k2) ?i"
    if d: "\<not> PULSE_CFG_RUN_IMMEDIATELY cfg"
      and r: "run_ops cfg ops (?k1, w1) = Some (k2, w2)" and c: "count_ticks ops < unat P"
    for ops w1 k2 w2
  proof -
    from q [OF d] have "quiet cfg ?i P 0 (fst (?k1, w1))" by simp
    moreover from c have "0 + count_ticks ops < unat P" by simp
    ultimately have "quiet cfg ?i P (0 + count_ticks ops) (fst (k2, w2))"
      using r by (intro quiet_run_ops [OF assms(1)])
    then show ?thesis by (simp add: quiet_def)
  qed
  have live: "bit (ready_mask ((pulse_tick_isr cfg ^^ unat P) ?k1)) ?i"
    if d: "\<not> PULSE_CFG_RUN_IMMEDIATELY cfg"
  proof -
    have "bit (ready_mask ((pulse_tick_isr cfg ^^ unat (period_ticks (tasks ?k1 ! ?i))) ?k1)) ?i"
      using assms(1) inv1
    proof (rule due_after_full_period)
      show "?i < task_count ?k1" using cnt by simp
      show "running (tasks ?k1 ! ?i) = 0" using t by simp
      show "elapsed_ticks (tasks ?k1 ! ?i) = 0" using t d by simp
      show "period_ticks (tasks ?k1 ! ?i) \<noteq> 0" using t ok(1) by simp
    qed
    with t show ?thesis by simp
  qed
  from imm def0 safe live show ?thesis by blast
qed

theorem first_release_policy_witness:
  "(snd (pulse_add_task test_cfg 0 2 (Some task0) (pulse_init test_cfg 1 (pulse_kernel0 test_cfg)))
      = 0 \<and>
    elapsed_ticks (tasks (fst (pulse_add_task test_cfg 0 2 (Some task0)
         (pulse_init test_cfg 1 (pulse_kernel0 test_cfg)))) ! 0) = 2 \<and>
    bit (ready_mask (fst (pulse_add_task test_cfg 0 2 (Some task0)
         (pulse_init test_cfg 1 (pulse_kernel0 test_cfg))))) 0) \<and>
   (snd (pulse_add_task deferred_cfg 0 2 (Some task0)
         (pulse_init deferred_cfg 1 (pulse_kernel0 deferred_cfg))) = 0 \<and>
    elapsed_ticks (tasks (fst (pulse_add_task deferred_cfg 0 2 (Some task0)
         (pulse_init deferred_cfg 1 (pulse_kernel0 deferred_cfg)))) ! 0) = 0 \<and>
    \<not> bit (ready_mask (fst (pulse_add_task deferred_cfg 0 2 (Some task0)
         (pulse_init deferred_cfg 1 (pulse_kernel0 deferred_cfg))))) 0 \<and>
    \<not> bit (ready_mask (pulse_tick_isr deferred_cfg (fst (pulse_add_task deferred_cfg 0 2
         (Some task0) (pulse_init deferred_cfg 1 (pulse_kernel0 deferred_cfg)))))) 0 \<and>
    bit (ready_mask ((pulse_tick_isr deferred_cfg ^^ 2) (fst (pulse_add_task deferred_cfg 0 2
         (Some task0) (pulse_init deferred_cfg 1 (pulse_kernel0 deferred_cfg)))))) 0)"
proof -
  let ?k0 = "pulse_init test_cfg 1 (pulse_kernel0 test_cfg) :: test_world pulse_kernel_t"
  let ?d0 = "pulse_init deferred_cfg 1 (pulse_kernel0 deferred_cfg) :: test_world pulse_kernel_t"
  let ?d1 = "fst (pulse_add_task deferred_cfg 0 2 (Some task0) ?d0)"
  have c0: "task_count ?k0 = 0" unfolding test_init by simp
  have cd: "task_count ?d0 = 0" unfolding deferred_init by simp
  have s0: "snd (pulse_add_task test_cfg 0 2 (Some task0) ?k0) = 0"
    by (simp add: add_task_zero_iff c0)
  have sd: "snd (pulse_add_task deferred_cfg 0 2 (Some task0) ?d0) = 0"
    by (simp add: add_task_zero_iff cd)
  have run: "run_ops deferred_cfg [Tick] (?d1, world0)
      = Some (pulse_tick_isr deferred_cfg ?d1, world0)"
    by simp
  have cnt: "count_ticks ([Tick] :: test_world pulse_op list) < unat (2 :: 32 word)"
    by (simp add: count_ticks_def)
  have two: "unat (2 :: 32 word) = 2" by simp
  from first_release_policy [OF cfg_ok_test(1) reachable_kernel0 [where w = world0] s0]
  have imm: "elapsed_ticks (tasks (fst (pulse_add_task test_cfg 0 2 (Some task0) ?k0)) ! 0) = 2 \<and>
      bit (ready_mask (fst (pulse_add_task test_cfg 0 2 (Some task0) ?k0))) 0"
    by (simp add: c0)
  from first_release_policy [OF cfg_ok_deferred reachable_kernel0 [where w = world0] sd]
  have d: "elapsed_ticks (tasks ?d1 ! 0) = 0 \<and> \<not> bit (ready_mask ?d1) 0 \<and>
      (\<forall>ops w1 k2 w2. run_ops deferred_cfg ops (?d1, w1) = Some (k2, w2) \<longrightarrow>
          count_ticks ops < unat (2 :: 32 word) \<longrightarrow> \<not> bit (ready_mask k2) 0) \<and>
      bit (ready_mask ((pulse_tick_isr deferred_cfg ^^ unat (2 :: 32 word)) ?d1)) 0"
    by (simp add: cd)
  from d run cnt have "\<not> bit (ready_mask (pulse_tick_isr deferred_cfg ?d1)) 0" by blast
  with s0 sd imm d two show ?thesis by simp
qed

section \<open>The period timing scenario\<close>

text \<open>
  Claim C5.  From an initialised kernel under the immediate-ready policy (the build of
  the hosted tests), register task X (\<open>task0\<close>, period 2) and then task Y (\<open>task1\<close>,
  period 3), and run six iterations of tick followed by poll.  Both registrations succeed
  and the log of executions is exactly X and Y on tick 1, X on tick 3, Y on tick 4 and X
  on tick 5: five executions, in that order.
\<close>

theorem period_timing_trace:
  "fst (test_period_timing test_cfg w) = 0 \<and>
   fst (snd (test_period_timing test_cfg w)) = 0 \<and>
   map_option (\<lambda>s. g_log (snd s)) (snd (snd (test_period_timing test_cfg w))) =
     Some [(1, 0), (1, 1), (3, 0), (4, 1), (5, 0)]"
proof -
  let ?w0 = "reset_log w"
  have l0: "g_log ?w0 = []" by (simp add: reset_log_def)
  have t1: "pulse_tick_isr test_cfg (two_tasks 2 3 3) = two_tasks 3 4 3"
    by (simp add: two_tasks_tick word_le_nat_alt word_less_nat_alt)
  have t2: "pulse_tick_isr test_cfg (two_tasks 0 0 0) = two_tasks 1 1 0"
    by (simp add: two_tasks_tick word_le_nat_alt word_less_nat_alt)
  have t3: "pulse_tick_isr test_cfg (two_tasks 1 1 0) = two_tasks 2 2 1"
    by (simp add: two_tasks_tick word_le_nat_alt word_less_nat_alt)
  have t4: "pulse_tick_isr test_cfg (two_tasks 0 2 0) = two_tasks 1 3 2"
    by (simp add: two_tasks_tick word_le_nat_alt word_less_nat_alt)
  have t5: "pulse_tick_isr test_cfg (two_tasks 1 0 0) = two_tasks 2 1 1"
    by (simp add: two_tasks_tick word_le_nat_alt word_less_nat_alt)
  have t6: "pulse_tick_isr test_cfg (two_tasks 0 1 0) = two_tasks 1 2 0"
    by (simp add: two_tasks_tick word_le_nat_alt word_less_nat_alt)
  let ?w1 = "log_exec 1 (log_exec 0 (?w0\<lparr>g_now_tick := 1\<rparr>))"
  let ?w2 = "?w1\<lparr>g_now_tick := 2\<rparr>"
  let ?w3 = "log_exec 0 (?w2\<lparr>g_now_tick := 3\<rparr>)"
  let ?w4 = "log_exec 1 (?w3\<lparr>g_now_tick := 4\<rparr>)"
  let ?w5 = "log_exec 0 (?w4\<lparr>g_now_tick := 5\<rparr>)"
  let ?w6 = "?w5\<lparr>g_now_tick := 6\<rparr>"
  have "drive_loop test_cfg 6 0 (two_tasks 2 3 3) ?w0 = drive_loop test_cfg 6 1 (two_tasks 0 0 0) ?w1"
    by (rule drive_loop_step) (simp_all add: t1 two_tasks_poll)
  also have "\<dots> = drive_loop test_cfg 6 2 (two_tasks 1 1 0) ?w2"
    by (rule drive_loop_step) (simp_all add: t2 two_tasks_poll)
  also have "\<dots> = drive_loop test_cfg 6 3 (two_tasks 0 2 0) ?w3"
    by (rule drive_loop_step) (simp_all add: t3 two_tasks_poll)
  also have "\<dots> = drive_loop test_cfg 6 4 (two_tasks 1 0 0) ?w4"
    by (rule drive_loop_step) (simp_all add: t4 two_tasks_poll)
  also have "\<dots> = drive_loop test_cfg 6 5 (two_tasks 0 1 0) ?w5"
    by (rule drive_loop_step) (simp_all add: t5 two_tasks_poll)
  also have "\<dots> = drive_loop test_cfg 6 6 (two_tasks 1 2 0) ?w6"
    by (rule drive_loop_step) (simp_all add: t6 two_tasks_poll)
  also have "\<dots> = Some (two_tasks 1 2 0, ?w6)" by (rule drive_loop_done)
  finally have run: "drive_ticks test_cfg 6 (two_tasks 2 3 3) ?w0 = Some (two_tasks 1 2 0, ?w6)"
    by (simp add: drive_ticks_def)
  have log: "g_log ?w6 = [(1, 0), (1, 1), (3, 0), (4, 1), (5, 0)]"
    by (simp add: log_exec_def reset_log_def)
  define k1 where "k1 = fst (pulse_add_task test_cfg 0 2 (Some task0)
      (pulse_init test_cfg 1 (pulse_kernel0 test_cfg) :: test_world pulse_kernel_t))"
  have a1: "pulse_add_task test_cfg 0 2 (Some task0)
      (pulse_init test_cfg 1 (pulse_kernel0 test_cfg)) = (k1, 0)"
    unfolding k1_def by (rule prod_eqI) (simp_all add: two_tasks_registered(2))
  have a2: "pulse_add_task test_cfg 0 3 (Some task1) k1 = (two_tasks 2 3 3, 0)"
    unfolding k1_def by (rule two_tasks_registered(1))
  have "test_period_timing test_cfg w = (0, 0, Some (two_tasks 1 2 0, ?w6))"
    unfolding test_period_timing_def Let_def a1 by (simp add: a2 run)
  with log show ?thesis by simp
qed

section \<open>One pass of the dispatcher\<close>




end
